theory Spec2Isabelle
  imports Main "HOL-Library.Char_ord" "HOL-Library.List_Lexorder" "HOL-Library.Sublist"
begin

section \<open>Strings\<close>

text \<open>
  A Go string is a sequence of bytes; \<open>string\<close> (a list of 8-bit characters) is the same
  thing, and \<open>length\<close> is Go's \<open>len\<close>. The helpers below are the functions of package
  \<open>strings\<close> that the grammar and the validators call.
\<close>

text \<open>\<open>strings.Join(parts, sep)\<close>.\<close>

fun join :: "string \<Rightarrow> string list \<Rightarrow> string" where
  "join sep [] = []"
| "join sep [x] = x"
| "join sep (x # y # ys) = x @ sep @ join sep (y # ys)"

text \<open>\<open>strings.Split(s, sep)\<close> for a separator of one byte: never the empty list.\<close>

fun split :: "char \<Rightarrow> string \<Rightarrow> string list" where
  "split sep [] = [[]]"
| "split sep (c # cs) =
     (if c = sep then [] # split sep cs
      else (case split sep cs of
              [] \<Rightarrow> [[c]]
            | p # ps \<Rightarrow> (c # p) # ps))"

text \<open>\<open>strings.ContainsAny(s, chars)\<close> for ASCII \<open>chars\<close>.\<close>

definition containsAny :: "string \<Rightarrow> string \<Rightarrow> bool" where
  "containsAny s chars = (\<exists>c \<in> set s. c \<in> set chars)"

text \<open>\<open>strings.Count(s, "?")\<close>.\<close>

definition countPlaceholders :: "string \<Rightarrow> nat" where
  "countPlaceholders s = count_list s (CHR ''?'')"

definition isLower :: "char \<Rightarrow> bool" where
  "isLower c = (97 \<le> (of_char c :: nat) \<and> (of_char c :: nat) \<le> 122)"

definition isUpper :: "char \<Rightarrow> bool" where
  "isUpper c = (65 \<le> (of_char c :: nat) \<and> (of_char c :: nat) \<le> 90)"

definition isDigit :: "char \<Rightarrow> bool" where
  "isDigit c = (48 \<le> (of_char c :: nat) \<and> (of_char c :: nat) \<le> 57)"

text \<open>The character class \<open>[a-zA-Z_]\<close>.\<close>

definition isIdentStart :: "char \<Rightarrow> bool" where
  "isIdentStart c = (isLower c \<or> isUpper c \<or> c = CHR ''_'')"

text \<open>The character class \<open>[a-zA-Z0-9_]\<close>.\<close>

definition isIdentChar :: "char \<Rightarrow> bool" where
  "isIdentChar c = (isLower c \<or> isUpper c \<or> isDigit c \<or> c = CHR ''_'')"

text \<open>The class \<open>\s\<close> of Go's regular expressions: tab, newline, form feed, carriage return, space.\<close>

definition isReSpace :: "char \<Rightarrow> bool" where
  "isReSpace c = (c = CHR 0x09 \<or> c = CHR 0x0A \<or> c = CHR 0x0C \<or> c = CHR 0x0D \<or> c = CHR '' '')"

text \<open>
  \<open>strings.ToUpper\<close>. ASCII letters are mapped bytewise. Two runes outside ASCII have an
  ASCII upper case: U+0131 (bytes C4 B1) becomes \<open>I\<close> and U+017F (bytes C5 BF) becomes
  \<open>S\<close>. Every other rune outside ASCII is mapped by Go to a rune outside ASCII (an invalid
  byte to U+FFFD); the model keeps such bytes as they are, which agrees with Go on which
  bytes of the result are ASCII and what they are, and agrees with Go entirely on every
  string that \<open>ValidateOperator\<close> accepts. Only the function name of
  \<open>CompileAggregate\<close>, which is not validated, reaches \<open>toUpper\<close> with such a rune.
\<close>

definition upperByte :: "char \<Rightarrow> char" where
  "upperByte c = (if isLower c then char_of (of_char c - (32::nat)) else c)"

fun toUpper :: "string \<Rightarrow> string" where
  "toUpper [] = []"
| "toUpper [c] = [upperByte c]"
| "toUpper (c # d # cs) =
     (if c = CHR 0xC4 \<and> d = CHR 0xB1 then CHR ''I'' # toUpper cs
      else if c = CHR 0xC5 \<and> d = CHR 0xBF then CHR ''S'' # toUpper cs
      else upperByte c # toUpper (d # cs))"

text \<open>
  \<open>strings.TrimSpace\<close> removes the leading and trailing runes that \<open>unicode.IsSpace\<close>
  accepts. \<open>unicodeSpaces\<close> lists them in their UTF-8 encoding: the six ASCII ones,
  U+0085, U+00A0, U+1680, U+2000 to U+200A, U+2028, U+2029, U+202F, U+205F and U+3000.
  No entry is the beginning or the end of another, so at most one of them starts, and at
  most one ends, a given string.
\<close>

definition unicodeSpaces :: "string list" where
  "unicodeSpaces =
     [[CHR 0x09], [CHR 0x0A], [CHR 0x0B], [CHR 0x0C], [CHR 0x0D], [CHR 0x20],
      [CHR 0xC2, CHR 0x85], [CHR 0xC2, CHR 0xA0],
      [CHR 0xE1, CHR 0x9A, CHR 0x80],
      [CHR 0xE2, CHR 0x80, CHR 0x80], [CHR 0xE2, CHR 0x80, CHR 0x81],
      [CHR 0xE2, CHR 0x80, CHR 0x82], [CHR 0xE2, CHR 0x80, CHR 0x83],
      [CHR 0xE2, CHR 0x80, CHR 0x84], [CHR 0xE2, CHR 0x80, CHR 0x85],
      [CHR 0xE2, CHR 0x80, CHR 0x86], [CHR 0xE2, CHR 0x80, CHR 0x87],
      [CHR 0xE2, CHR 0x80, CHR 0x88], [CHR 0xE2, CHR 0x80, CHR 0x89],
      [CHR 0xE2, CHR 0x80, CHR 0x8A],
      [CHR 0xE2, CHR 0x80, CHR 0xA8], [CHR 0xE2, CHR 0x80, CHR 0xA9],
      [CHR 0xE2, CHR 0x80, CHR 0xAF],
      [CHR 0xE2, CHR 0x81, CHR 0x9F],
      [CHR 0xE3, CHR 0x80, CHR 0x80]]"

definition leadingSpace :: "string \<Rightarrow> string option" where
  "leadingSpace s = find (\<lambda>q. take (length q) s = q) unicodeSpaces"

definition trailingSpace :: "string \<Rightarrow> string option" where
  "trailingSpace s =
     find (\<lambda>q. length q \<le> length s \<and> drop (length s - length q) s = q) unicodeSpaces"

function trimLeft :: "string \<Rightarrow> string" where
  "trimLeft s = (case leadingSpace s of None \<Rightarrow> s | Some q \<Rightarrow> trimLeft (drop (length q) s))"
  by pat_completeness auto
termination
proof (relation "measure length")
  fix s q :: string
  assume "leadingSpace s = Some q"
  then have "q \<in> set unicodeSpaces" and t: "take (length q) s = q"
    by (auto simp: leadingSpace_def find_Some_iff)
  then have "q \<noteq> []" by (auto simp: unicodeSpaces_def)
  with t have "s \<noteq> []" by auto
  with \<open>q \<noteq> []\<close> show "(drop (length q) s, s) \<in> measure length" by simp
qed simp

function trimRight :: "string \<Rightarrow> string" where
  "trimRight s =
     (case trailingSpace s of None \<Rightarrow> s | Some q \<Rightarrow> trimRight (take (length s - length q) s))"
  by pat_completeness auto
termination
proof (relation "measure length")
  fix s q :: string
  assume "trailingSpace s = Some q"
  then have "q \<in> set unicodeSpaces" and t: "length q \<le> length s"
    by (auto simp: trailingSpace_def find_Some_iff)
  then have "q \<noteq> []" by (auto simp: unicodeSpaces_def)
  with t show "(take (length s - length q) s, s) \<in> measure length" by (cases s) auto
qed simp

declare trimLeft.simps [simp del] trimRight.simps [simp del]

definition trimSpace :: "string \<Rightarrow> string" where
  "trimSpace s = trimRight (trimLeft s)"

section \<open>Errors\<close>

text \<open>
  The error values of the packages \<open>dialect\<close>, \<open>validation\<close> and \<open>fluentsql\<close>. The message
  texts that \<open>IdentifierError\<close> and \<open>OperatorError\<close> carry are not modelled. A Go function
  returning \<open>(string, []any, error)\<close> returns a triple here, the error \<open>None\<close> for \<open>nil\<close>.
\<close>

datatype error =
    ErrNoTable
  | ErrNoColumns
  | ErrEmptyBatch
  | ErrInconsistentBatch
  | ErrEmptyWhereIn
  | ErrInvalidBetween
  | IdentifierError
  | OperatorError
  | ErrUnknownWhereType
  | ErrNoExecutor
  | OtherError nat

section \<open>Validation of identifiers and operators\<close>

text \<open>
  \<open>identifierRegex\<close>: \<^verbatim>\<open>^[a-zA-Z_][a-zA-Z0-9_]*(\.[a-zA-Z_][a-zA-Z0-9_]*)?$\<close>.
  The classes exclude the dot, so the greedy reading below is the only way to match.
\<close>

definition identifierRegex :: "string \<Rightarrow> bool" where
  "identifierRegex s =
     (case s of
        [] \<Rightarrow> False
      | c # cs \<Rightarrow>
          isIdentStart c \<and>
          (case dropWhile isIdentChar cs of
             [] \<Rightarrow> True
           | d # ds \<Rightarrow>
               d = CHR ''.'' \<and>
               (case ds of
                  [] \<Rightarrow> False
                | e # es \<Rightarrow> isIdentStart e \<and> dropWhile isIdentChar es = [])))"

definition ValidateIdentifier :: "string \<Rightarrow> error option" where
  "ValidateIdentifier ident =
     (if ident = [] then Some IdentifierError
      else if length ident > 128 then Some IdentifierError
      else if \<not> identifierRegex ident then Some IdentifierError
      else None)"

text \<open>
  \<open>aliasRegex\<close>: \<^verbatim>\<open>(?i)^([a-zA-Z_][a-zA-Z0-9_]*)\s+(?:as\s+)?([a-zA-Z_][a-zA-Z0-9_]*)$\<close>,
  returning the two groups. Under \<open>(?i)\<close> the letter \<open>s\<close> of the literal also matches its
  case fold U+017F (bytes C5 BF). The two classes also admit U+017F and U+212A under
  \<open>(?i)\<close>; a group holding one of them is then refused by \<open>ValidateIdentifier\<close>, with the
  same \<open>IdentifierError\<close> as when the pattern does not match, so the classes are left ASCII.
\<close>

fun stripAs :: "string \<Rightarrow> string option" where
  "stripAs (a # s # r) =
     (if (a = CHR ''a'' \<or> a = CHR ''A'') \<and> (s = CHR ''s'' \<or> s = CHR ''S'') then Some r
      else (case r of
              [] \<Rightarrow> None
            | t # r' \<Rightarrow>
                if (a = CHR ''a'' \<or> a = CHR ''A'') \<and> s = CHR 0xC5 \<and> t = CHR 0xBF then Some r'
                else None))"
| "stripAs _ = None"

definition aliasRegex :: "string \<Rightarrow> (string \<times> string) option" where
  "aliasRegex s =
     (let name = takeWhile isIdentChar s;
          r1 = dropWhile isIdentChar s;
          r2 = dropWhile isReSpace r1;
          r3 = (case stripAs r2 of
                  None \<Rightarrow> r2
                | Some r \<Rightarrow>
                    (case r of
                       [] \<Rightarrow> r2
                     | c # _ \<Rightarrow> if isReSpace c then dropWhile isReSpace r else r2));
          alias = takeWhile isIdentChar r3;
          r4 = dropWhile isIdentChar r3
      in if (case name of [] \<Rightarrow> False | c # _ \<Rightarrow> isIdentStart c)
            \<and> r1 \<noteq> r2
            \<and> (case alias of [] \<Rightarrow> False | c # _ \<Rightarrow> isIdentStart c)
            \<and> r4 = []
         then Some (name, alias) else None)"

definition ValidateTableWithAlias :: "string \<Rightarrow> string \<times> string \<times> error option" where
  "ValidateTableWithAlias table =
     (if table = [] then ([], [], Some IdentifierError)
      else (case aliasRegex table of
              Some (name, alias) \<Rightarrow>
                (case ValidateIdentifier name of
                   Some e \<Rightarrow> ([], [], Some e)
                 | None \<Rightarrow>
                     (case ValidateIdentifier alias of
                        Some e \<Rightarrow> ([], [], Some IdentifierError)
                      | None \<Rightarrow> (name, alias, None)))
            | None \<Rightarrow>
                (case ValidateIdentifier table of
                   Some e \<Rightarrow> ([], [], Some e)
                 | None \<Rightarrow> (table, [], None))))"

definition allowedOperators :: "string list" where
  "allowedOperators =
     [''='', ''!='', ''<>'', ''<'', ''>'', ''<='', ''>='',
      ''LIKE'', ''NOT LIKE'', ''IS'', ''IS NOT'',
      ''IN'', ''NOT IN'', ''BETWEEN'', ''NOT BETWEEN'', ''<=>'']"

definition ValidateOperator :: "string \<Rightarrow> error option" where
  "ValidateOperator op =
     (let normalized = toUpper (trimSpace op)
      in if normalized \<notin> set allowedOperators then Some OperatorError else None)"

text \<open>
  An ASCII character that is not a letter, a digit, an underscore, a dot or white space
  (\<open>\s\<close>): the semicolon, the dash, the quotes, the backtick, the parentheses, the star,
  NUL and the other control characters.
\<close>

definition metaChar :: "char \<Rightarrow> bool" where
  "metaChar c = ((of_char c :: nat) < 128 \<and> \<not> isIdentChar c \<and> c \<noteq> CHR ''.'' \<and> \<not> isReSpace c)"

section \<open>The MySQL grammar: wrapping\<close>

definition Wrap :: "string \<Rightarrow> string \<times> error option" where
  "Wrap identifier =
     (if identifier = ''*'' then (''*'', None)
      else (case ValidateIdentifier identifier of
              Some e \<Rightarrow> ([], Some e)
            | None \<Rightarrow>
                if CHR ''.'' \<in> set identifier
                then (join ''.'' (map (\<lambda>part. ''`'' @ part @ ''`'') (split (CHR ''.'') identifier)), None)
                else (''`'' @ identifier @ ''`'', None)))"

definition WrapTable :: "string \<Rightarrow> string \<times> error option" where
  "WrapTable table =
     (case ValidateTableWithAlias table of
        (name, alias, Some e) \<Rightarrow> ([], Some e)
      | (name, alias, None) \<Rightarrow>
          (let wrapped = ''`'' @ name @ ''`''
           in if alias \<noteq> [] then (wrapped @ '' AS `'' @ alias @ ''`'', None)
              else (wrapped, None)))"

definition Placeholder :: "nat \<Rightarrow> string" where
  "Placeholder index = ''?''"


section \<open>The clause model\<close>

text \<open>
  A value of Go's type \<open>any\<close> is \<open>'v option\<close>: \<open>None\<close> is \<open>nil\<close>, the zero value that a
  missing map key yields, and \<open>'v\<close> stands for every other value.
\<close>

type_synonym 'v any = "'v option"

text \<open>
  A Go \<open>map[string]any\<close> is an association list; its order is the order in which
  \<open>range\<close> happens to visit the keys, a key bound twice has the first binding.
\<close>

type_synonym 'v gomap = "(string \<times> 'v any) list"

definition mapKeys :: "'v gomap \<Rightarrow> string list" where
  "mapKeys m = remdups (map fst m)"

definition mapLen :: "'v gomap \<Rightarrow> nat" where
  "mapLen m = length (mapKeys m)"

definition mapIndex :: "'v gomap \<Rightarrow> string \<Rightarrow> 'v any" where
  "mapIndex m k = (case map_of m k of Some v \<Rightarrow> v | None \<Rightarrow> None)"

text \<open>
  \<open>WhereType\<close> and \<open>WhereBoolean\<close> are Go integers with named constants; the last
  constructor of each stands for every integer that has no name.
\<close>

datatype WhereType =
    WhereTypeBasic
  | WhereTypeIn
  | WhereTypeNotIn
  | WhereTypeBetween
  | WhereTypeNotBetween
  | WhereTypeNull
  | WhereTypeNotNull
  | WhereTypeRaw
  | WhereTypeNested
  | WhereTypeDate
  | WhereTypeYear
  | WhereTypeMonth
  | WhereTypeDay
  | WhereTypeOther int

datatype WhereBoolean = WhereBooleanAnd | WhereBooleanOr | WhereBooleanOther int

fun WhereBoolean_String :: "WhereBoolean \<Rightarrow> string" where
  "WhereBoolean_String b = (if b = WhereBooleanOr then ''OR'' else ''AND'')"

datatype 'v WhereClause = WhereClause
  (Type: WhereType)
  (Boolean: WhereBoolean)
  (Column: string)
  (Operator: string)
  (Value: "'v any")
  (Values: "'v any list")
  (Nested: "'v WhereClause list")
  (Raw: string)
  (Bindings: "'v any list")

text \<open>\<open>OrderDirection\<close> and \<open>JoinType\<close> are Go string types: any string is a value.\<close>

record OrderClause =
  oColumn :: string
  oDirection :: string
  oRaw :: string

record JoinClause =
  jType :: string
  jTable :: string
  jAlias :: string
  jFirst :: string
  jOperator :: string
  jSecond :: string

definition JoinCross :: string where
  "JoinCross = ''CROSS''"

text \<open>The interface \<open>dialect.QueryBuilder\<close>: what the grammar can read of a builder.\<close>

record 'v QueryBuilder =
  GetTable :: string
  GetTableAlias :: string
  GetColumns :: "string list"
  IsDistinct :: bool
  GetWheres :: "'v WhereClause list"
  GetOrders :: "OrderClause list"
  GetJoins :: "JoinClause list"
  GetGroupBy :: "string list"
  GetHaving :: "'v WhereClause list"
  GetLimit :: "int option"
  GetOffset :: "int option"

section \<open>The MySQL grammar: predicates\<close>

definition compileWhereBasic :: "'v WhereClause \<Rightarrow> string \<times> 'v any list \<times> error option" where
  "compileWhereBasic w =
     (case Wrap (Column w) of
        (column, Some e) \<Rightarrow> ([], [], Some e)
      | (column, None) \<Rightarrow>
          (case ValidateOperator (Operator w) of
             Some e \<Rightarrow> ([], [], Some e)
           | None \<Rightarrow> (column @ '' '' @ toUpper (Operator w) @ '' ?'', [Value w], None)))"

definition compileWhereIn :: "'v WhereClause \<Rightarrow> bool \<Rightarrow> string \<times> 'v any list \<times> error option" where
  "compileWhereIn w isNot =
     (if length (Values w) = 0 then ([], [], Some ErrEmptyWhereIn)
      else (case Wrap (Column w) of
              (column, Some e) \<Rightarrow> ([], [], Some e)
            | (column, None) \<Rightarrow>
                (let placeholders = replicate (length (Values w)) ''?'';
                     op = (if isNot then ''NOT IN'' else ''IN'')
                 in (column @ '' '' @ op @ '' ('' @ join '', '' placeholders @ '')'', Values w, None))))"

definition compileWhereBetween :: "'v WhereClause \<Rightarrow> bool \<Rightarrow> string \<times> 'v any list \<times> error option" where
  "compileWhereBetween w isNot =
     (if length (Values w) \<noteq> 2 then ([], [], Some ErrInvalidBetween)
      else (case Wrap (Column w) of
              (column, Some e) \<Rightarrow> ([], [], Some e)
            | (column, None) \<Rightarrow>
                (let op = (if isNot then ''NOT BETWEEN'' else ''BETWEEN'')
                 in (column @ '' '' @ op @ '' ? AND ?'', Values w, None))))"

definition compileWhereNull :: "'v WhereClause \<Rightarrow> bool \<Rightarrow> string \<times> 'v any list \<times> error option" where
  "compileWhereNull w isNot =
     (case Wrap (Column w) of
        (column, Some e) \<Rightarrow> ([], [], Some e)
      | (column, None) \<Rightarrow>
          (let op = (if isNot then ''IS NOT NULL'' else ''IS NULL'')
           in (column @ '' '' @ op, [], None)))"

definition compileWhereDate :: "'v WhereClause \<Rightarrow> string \<Rightarrow> string \<times> 'v any list \<times> error option" where
  "compileWhereDate w fn =
     (case Wrap (Column w) of
        (column, Some e) \<Rightarrow> ([], [], Some e)
      | (column, None) \<Rightarrow> (fn @ ''('' @ column @ '') = ?'', [Value w], None))"

text \<open>
  \<open>compileWheres\<close>, \<open>compileWhere\<close> and \<open>compileWhereNested\<close> call each other.
  \<open>compileWheresLoop i rest sql args\<close> is the \<open>for\<close> loop of \<open>compileWheres\<close> at index
  \<open>i\<close>, with the text and the arguments written so far.
\<close>

function compileWheres :: "'v WhereClause list \<Rightarrow> string \<times> 'v any list \<times> error option"
  and compileWheresLoop ::
    "nat \<Rightarrow> 'v WhereClause list \<Rightarrow> string \<Rightarrow> 'v any list \<Rightarrow> string \<times> 'v any list \<times> error option"
  and compileWhere :: "'v WhereClause \<Rightarrow> string \<times> 'v any list \<times> error option"
  and compileWhereNested :: "'v WhereClause \<Rightarrow> string \<times> 'v any list \<times> error option"
where
  "compileWheres wheres =
     (if length wheres = 0 then ([], [], None)
      else compileWheresLoop 0 wheres [] [])"
| "compileWheresLoop i [] sql args = (sql, args, None)"
| "compileWheresLoop i (w # rest) sql args =
     (let sql1 = (if i > 0 then sql @ '' '' @ WhereBoolean_String (Boolean w) @ '' '' else sql)
      in case compileWhere w of
           (clauseSQL, clauseArgs, Some e) \<Rightarrow> ([], [], Some e)
         | (clauseSQL, clauseArgs, None) \<Rightarrow>
             compileWheresLoop (Suc i) rest (sql1 @ clauseSQL) (args @ clauseArgs))"
| "compileWhere w =
     (case Type w of
        WhereTypeBasic \<Rightarrow> compileWhereBasic w
      | WhereTypeIn \<Rightarrow> compileWhereIn w False
      | WhereTypeNotIn \<Rightarrow> compileWhereIn w True
      | WhereTypeBetween \<Rightarrow> compileWhereBetween w False
      | WhereTypeNotBetween \<Rightarrow> compileWhereBetween w True
      | WhereTypeNull \<Rightarrow> compileWhereNull w False
      | WhereTypeNotNull \<Rightarrow> compileWhereNull w True
      | WhereTypeRaw \<Rightarrow> (Raw w, Bindings w, None)
      | WhereTypeNested \<Rightarrow> compileWhereNested w
      | WhereTypeDate \<Rightarrow> compileWhereDate w ''DATE''
      | WhereTypeYear \<Rightarrow> compileWhereDate w ''YEAR''
      | WhereTypeMonth \<Rightarrow> compileWhereDate w ''MONTH''
      | WhereTypeDay \<Rightarrow> compileWhereDate w ''DAY''
      | WhereTypeOther n \<Rightarrow> ([], [], Some ErrUnknownWhereType))"
| "compileWhereNested w =
     (if length (Nested w) = 0 then ([], [], None)
      else (case compileWheres (Nested w) of
              (nestedSQL, args, Some e) \<Rightarrow> ([], [], Some e)
            | (nestedSQL, args, None) \<Rightarrow> (''('' @ nestedSQL @ '')'', args, None)))"
  by pat_completeness auto
termination
proof (relation "measure (\<lambda>x. case x of
    Inl (Inl wheres) \<Rightarrow> 3 * size_list size wheres + 1
  | Inl (Inr (i, rest, sql, args)) \<Rightarrow> 3 * size_list size rest
  | Inr (Inl w) \<Rightarrow> 3 * size w + 2
  | Inr (Inr w) \<Rightarrow> 3 * size w + 1)")
  fix w :: "'v WhereClause"
  assume "length (Nested w) \<noteq> 0"
  have "size_list size (Nested w) < size w" by (cases w) simp
  then show "(Inl (Inl (Nested w)), Inr (Inr w)) \<in> measure (\<lambda>x. case x of
      Inl (Inl wheres) \<Rightarrow> 3 * size_list size wheres + 1
    | Inl (Inr (i, rest, sql, args)) \<Rightarrow> 3 * size_list size rest
    | Inr (Inl w) \<Rightarrow> 3 * size w + 2
    | Inr (Inr w) \<Rightarrow> 3 * size w + 1)" by simp
qed auto

declare compileWheres.simps [simp del] compileWhere.simps [simp del]
  compileWhereNested.simps [simp del]

section \<open>The MySQL grammar: statements\<close>

text \<open>\<open>fmt.Sprintf("%d", n)\<close>.\<close>

fun showNat :: "nat \<Rightarrow> string" where
  "showNat n = (if n < 10 then [char_of (48 + n)] else showNat (n div 10) @ [char_of (48 + n mod 10)])"

declare showNat.simps [simp del]

definition showInt :: "int \<Rightarrow> string" where
  "showInt n = (if n < 0 then CHR ''-'' # showNat (nat (- n)) else showNat (nat n))"

text \<open>The loop that wraps every identifier of a list and stops at the first error.\<close>

fun wrapEach :: "string list \<Rightarrow> string list \<times> error option" where
  "wrapEach [] = ([], None)"
| "wrapEach (col # cols) =
     (case Wrap col of
        (wrapped, Some e) \<Rightarrow> ([], Some e)
      | (wrapped, None) \<Rightarrow>
          (case wrapEach cols of
             (rest, Some e) \<Rightarrow> ([], Some e)
           | (rest, None) \<Rightarrow> (wrapped # rest, None)))"

text \<open>The loop over the selected columns of \<open>CompileSelect\<close>.\<close>

fun selectColumnsLoop :: "string list \<Rightarrow> string list \<times> error option" where
  "selectColumnsLoop [] = ([], None)"
| "selectColumnsLoop (col # cols) =
     (if containsAny col '' ()''
      then (case selectColumnsLoop cols of
              (rest, Some e) \<Rightarrow> ([], Some e)
            | (rest, None) \<Rightarrow> (col # rest, None))
      else (case Wrap col of
              (wrapped, Some e) \<Rightarrow> ([], Some e)
            | (wrapped, None) \<Rightarrow>
                (case selectColumnsLoop cols of
                   (rest, Some e) \<Rightarrow> ([], Some e)
                 | (rest, None) \<Rightarrow> (wrapped # rest, None))))"

definition compileJoin :: "JoinClause \<Rightarrow> string \<times> error option" where
  "compileJoin j =
     (case WrapTable (jTable j) of
        (table, Some e) \<Rightarrow> ([], Some e)
      | (table, None) \<Rightarrow>
          if jType j = JoinCross then (''CROSS JOIN '' @ table, None)
          else (case Wrap (jFirst j) of
                  (first, Some e) \<Rightarrow> ([], Some e)
                | (first, None) \<Rightarrow>
                    (case Wrap (jSecond j) of
                       (second, Some e) \<Rightarrow> ([], Some e)
                     | (second, None) \<Rightarrow>
                         (case ValidateOperator (jOperator j) of
                            Some e \<Rightarrow> ([], Some e)
                          | None \<Rightarrow>
                              (jType j @ '' JOIN '' @ table @ '' ON '' @ first @ '' ''
                                 @ jOperator j @ '' '' @ second, None)))))"

text \<open>The loop over the joins of \<open>CompileSelect\<close>: the text it appends.\<close>

fun joinsLoop :: "JoinClause list \<Rightarrow> string \<times> error option" where
  "joinsLoop [] = ([], None)"
| "joinsLoop (j # js) =
     (case compileJoin j of
        (joinSQL, Some e) \<Rightarrow> ([], Some e)
      | (joinSQL, None) \<Rightarrow>
          (case joinsLoop js of
             (rest, Some e) \<Rightarrow> ([], Some e)
           | (rest, None) \<Rightarrow> ('' '' @ joinSQL @ rest, None)))"

text \<open>The loop over the order clauses of \<open>CompileSelect\<close>.\<close>

fun ordersLoop :: "OrderClause list \<Rightarrow> string list \<times> error option" where
  "ordersLoop [] = ([], None)"
| "ordersLoop (ord # ords) =
     (if oRaw ord \<noteq> []
      then (case ordersLoop ords of
              (rest, Some e) \<Rightarrow> ([], Some e)
            | (rest, None) \<Rightarrow> (oRaw ord # rest, None))
      else (case Wrap (oColumn ord) of
              (wrapped, Some e) \<Rightarrow> ([], Some e)
            | (wrapped, None) \<Rightarrow>
                (case ordersLoop ords of
                   (rest, Some e) \<Rightarrow> ([], Some e)
                 | (rest, None) \<Rightarrow> ((wrapped @ '' '' @ oDirection ord) # rest, None))))"

text \<open>
  The block \<open>if len(wheres) > 0 { ... }\<close> that six statements share: the text and the
  arguments it appends after the keyword.
\<close>

definition predicateSection ::
  "string \<Rightarrow> 'v WhereClause list \<Rightarrow> string \<times> 'v any list \<times> error option" where
  "predicateSection keyword wheres =
     (if length wheres > 0
      then (case compileWheres wheres of
              (whereSQL, whereArgs, Some e) \<Rightarrow> ([], [], Some e)
            | (whereSQL, whereArgs, None) \<Rightarrow> (keyword @ whereSQL, whereArgs, None))
      else ([], [], None))"

definition selectColumns :: "string list \<Rightarrow> string \<times> error option" where
  "selectColumns columns =
     (if length columns = 0 then (''*'', None)
      else (case selectColumnsLoop columns of
              (wrappedCols, Some e) \<Rightarrow> ([], Some e)
            | (wrappedCols, None) \<Rightarrow> (join '', '' wrappedCols, None)))"

definition groupBySection :: "string list \<Rightarrow> string \<times> error option" where
  "groupBySection groups =
     (if length groups > 0
      then (case wrapEach groups of
              (wrappedGroups, Some e) \<Rightarrow> ([], Some e)
            | (wrappedGroups, None) \<Rightarrow> ('' GROUP BY '' @ join '', '' wrappedGroups, None))
      else ([], None))"

definition orderBySection :: "OrderClause list \<Rightarrow> string \<times> error option" where
  "orderBySection ords =
     (if length ords > 0
      then (case ordersLoop ords of
              (orderParts, Some e) \<Rightarrow> ([], Some e)
            | (orderParts, None) \<Rightarrow> ('' ORDER BY '' @ join '', '' orderParts, None))
      else ([], None))"

definition limitSection :: "string \<Rightarrow> int option \<Rightarrow> string" where
  "limitSection keyword l = (case l of None \<Rightarrow> [] | Some n \<Rightarrow> keyword @ showInt n)"

definition CompileSelect ::
  "('v, 'm) QueryBuilder_scheme \<Rightarrow> string \<times> 'v any list \<times> error option" where
  "CompileSelect b =
     (if GetTable b = [] then ([], [], Some ErrNoTable)
      else (case selectColumns (GetColumns b) of
        (columns, Some e) \<Rightarrow> ([], [], Some e)
      | (columns, None) \<Rightarrow>
      (case WrapTable (GetTable b) of
        (table, Some e) \<Rightarrow> ([], [], Some e)
      | (table, None) \<Rightarrow>
      (case joinsLoop (GetJoins b) of
        (joinsSQL, Some e) \<Rightarrow> ([], [], Some e)
      | (joinsSQL, None) \<Rightarrow>
      (case predicateSection '' WHERE '' (GetWheres b) of
        (whereSQL, whereArgs, Some e) \<Rightarrow> ([], [], Some e)
      | (whereSQL, whereArgs, None) \<Rightarrow>
      (case groupBySection (GetGroupBy b) of
        (groupSQL, Some e) \<Rightarrow> ([], [], Some e)
      | (groupSQL, None) \<Rightarrow>
      (case predicateSection '' HAVING '' (GetHaving b) of
        (havingSQL, havingArgs, Some e) \<Rightarrow> ([], [], Some e)
      | (havingSQL, havingArgs, None) \<Rightarrow>
      (case orderBySection (GetOrders b) of
        (orderSQL, Some e) \<Rightarrow> ([], [], Some e)
      | (orderSQL, None) \<Rightarrow>
          (''SELECT '' @ (if IsDistinct b then ''DISTINCT '' else []) @ columns
             @ '' FROM '' @ table @ joinsSQL @ whereSQL @ groupSQL @ havingSQL @ orderSQL
             @ limitSection '' LIMIT '' (GetLimit b) @ limitSection '' OFFSET '' (GetOffset b),
           whereArgs @ havingArgs, None)))))))))"

text \<open>The loop of \<open>CompileInsert\<close> over the sorted keys: wrapped columns and arguments.\<close>

fun insertColumnsLoop :: "'v gomap \<Rightarrow> string list \<Rightarrow> string list \<times> 'v any list \<times> error option" where
  "insertColumnsLoop data [] = ([], [], None)"
| "insertColumnsLoop data (key # keys) =
     (case Wrap key of
        (wrapped, Some e) \<Rightarrow> ([], [], Some e)
      | (wrapped, None) \<Rightarrow>
          (case insertColumnsLoop data keys of
             (cols, args, Some e) \<Rightarrow> ([], [], Some e)
           | (cols, args, None) \<Rightarrow> (wrapped # cols, mapIndex data key # args, None)))"

definition CompileInsert ::
  "('v, 'm) QueryBuilder_scheme \<Rightarrow> 'v gomap \<Rightarrow> string \<times> 'v any list \<times> error option" where
  "CompileInsert b data =
     (if GetTable b = [] then ([], [], Some ErrNoTable)
      else if mapLen data = 0 then ([], [], Some ErrNoColumns)
      else (let keys = sort (mapKeys data)
            in case WrapTable (GetTable b) of
                 (table, Some e) \<Rightarrow> ([], [], Some e)
               | (table, None) \<Rightarrow>
                   (case insertColumnsLoop data keys of
                      (wrappedCols, args, Some e) \<Rightarrow> ([], [], Some e)
                    | (wrappedCols, args, None) \<Rightarrow>
                        (''INSERT INTO '' @ table @ '' ('' @ join '', '' wrappedCols @ '')''
                           @ '' VALUES ('' @ join '', '' (map Placeholder [0..<length keys]) @ '')'',
                         args, None))))"

text \<open>
  The inner loop of \<open>CompileInsertBatch\<close> over the keys of one row, and its outer loop over
  the rows; \<open>args\<close> is the one argument list that all rows append to.
\<close>

fun batchRowLoop ::
  "'v gomap \<Rightarrow> string list \<Rightarrow> 'v any list \<Rightarrow> string list \<times> 'v any list \<times> error option" where
  "batchRowLoop row [] args = ([], args, None)"
| "batchRowLoop row (key # keys) args =
     (case map_of row key of
        None \<Rightarrow> ([], [], Some ErrInconsistentBatch)
      | Some val \<Rightarrow>
          (case batchRowLoop row keys (args @ [val]) of
             (placeholders, args', Some e) \<Rightarrow> ([], [], Some e)
           | (placeholders, args', None) \<Rightarrow> (Placeholder (length args) # placeholders, args', None)))"

fun batchRowsLoop ::
  "string list \<Rightarrow> 'v gomap list \<Rightarrow> 'v any list \<Rightarrow> string list \<times> 'v any list \<times> error option" where
  "batchRowsLoop keys [] args = ([], args, None)"
| "batchRowsLoop keys (row # rows) args =
     (if mapLen row \<noteq> length keys then ([], [], Some ErrInconsistentBatch)
      else (case batchRowLoop row keys args of
              (placeholders, args', Some e) \<Rightarrow> ([], [], Some e)
            | (placeholders, args', None) \<Rightarrow>
                (case batchRowsLoop keys rows args' of
                   (rowPlaceholders, args'', Some e) \<Rightarrow> ([], [], Some e)
                 | (rowPlaceholders, args'', None) \<Rightarrow>
                     ((''('' @ join '', '' placeholders @ '')'') # rowPlaceholders, args'', None))))"

definition CompileInsertBatch ::
  "('v, 'm) QueryBuilder_scheme \<Rightarrow> 'v gomap list \<Rightarrow> string \<times> 'v any list \<times> error option" where
  "CompileInsertBatch b data =
     (if GetTable b = [] then ([], [], Some ErrNoTable)
      else (case data of
        [] \<Rightarrow> ([], [], Some ErrEmptyBatch)
      | firstRow # _ \<Rightarrow>
          if mapLen firstRow = 0 then ([], [], Some ErrNoColumns)
          else (let keys = sort (mapKeys firstRow)
                in case WrapTable (GetTable b) of
                     (table, Some e) \<Rightarrow> ([], [], Some e)
                   | (table, None) \<Rightarrow>
                       (case wrapEach keys of
                          (wrappedCols, Some e) \<Rightarrow> ([], [], Some e)
                        | (wrappedCols, None) \<Rightarrow>
                            (case batchRowsLoop keys data [] of
                               (rowPlaceholders, args, Some e) \<Rightarrow> ([], [], Some e)
                             | (rowPlaceholders, args, None) \<Rightarrow>
                                 (''INSERT INTO '' @ table @ '' ('' @ join '', '' wrappedCols
                                    @ '') VALUES '' @ join '', '' rowPlaceholders,
                                  args, None))))))"

text \<open>The loop of \<open>CompileUpdate\<close> over the sorted keys, at index \<open>i\<close>.\<close>

fun updateSetLoop ::
  "'v gomap \<Rightarrow> nat \<Rightarrow> string list \<Rightarrow> string list \<times> 'v any list \<times> error option" where
  "updateSetLoop data i [] = ([], [], None)"
| "updateSetLoop data i (key # keys) =
     (case Wrap key of
        (wrapped, Some e) \<Rightarrow> ([], [], Some e)
      | (wrapped, None) \<Rightarrow>
          (case updateSetLoop data (Suc i) keys of
             (setParts, args, Some e) \<Rightarrow> ([], [], Some e)
           | (setParts, args, None) \<Rightarrow>
               ((wrapped @ '' = '' @ Placeholder i) # setParts, mapIndex data key # args, None)))"

definition CompileUpdate ::
  "('v, 'm) QueryBuilder_scheme \<Rightarrow> 'v gomap \<Rightarrow> string \<times> 'v any list \<times> error option" where
  "CompileUpdate b data =
     (if GetTable b = [] then ([], [], Some ErrNoTable)
      else if mapLen data = 0 then ([], [], Some ErrNoColumns)
      else (let keys = sort (mapKeys data)
            in case WrapTable (GetTable b) of
                 (table, Some e) \<Rightarrow> ([], [], Some e)
               | (table, None) \<Rightarrow>
                   (case updateSetLoop data 0 keys of
                      (setParts, args, Some e) \<Rightarrow> ([], [], Some e)
                    | (setParts, args, None) \<Rightarrow>
                        (case predicateSection '' WHERE '' (GetWheres b) of
                           (whereSQL, whereArgs, Some e) \<Rightarrow> ([], [], Some e)
                         | (whereSQL, whereArgs, None) \<Rightarrow>
                             (''UPDATE '' @ table @ '' SET '' @ join '', '' setParts @ whereSQL,
                              args @ whereArgs, None)))))"

definition CompileDelete ::
  "('v, 'm) QueryBuilder_scheme \<Rightarrow> string \<times> 'v any list \<times> error option" where
  "CompileDelete b =
     (if GetTable b = [] then ([], [], Some ErrNoTable)
      else (case WrapTable (GetTable b) of
              (table, Some e) \<Rightarrow> ([], [], Some e)
            | (table, None) \<Rightarrow>
                (case predicateSection '' WHERE '' (GetWheres b) of
                   (whereSQL, whereArgs, Some e) \<Rightarrow> ([], [], Some e)
                 | (whereSQL, whereArgs, None) \<Rightarrow>
                     (''DELETE FROM '' @ table @ whereSQL, whereArgs, None))))"

definition CompileExists ::
  "('v, 'm) QueryBuilder_scheme \<Rightarrow> string \<times> 'v any list \<times> error option" where
  "CompileExists b =
     (if GetTable b = [] then ([], [], Some ErrNoTable)
      else (case WrapTable (GetTable b) of
              (table, Some e) \<Rightarrow> ([], [], Some e)
            | (table, None) \<Rightarrow>
                (case predicateSection '' WHERE '' (GetWheres b) of
                   (whereSQL, whereArgs, Some e) \<Rightarrow> ([], [], Some e)
                 | (whereSQL, whereArgs, None) \<Rightarrow>
                     (''SELECT EXISTS(SELECT 1 FROM '' @ table @ whereSQL @ '' LIMIT 1)'',
                      whereArgs, None))))"

definition CompileCount ::
  "('v, 'm) QueryBuilder_scheme \<Rightarrow> string \<Rightarrow> string \<times> 'v any list \<times> error option" where
  "CompileCount b column =
     (if GetTable b = [] then ([], [], Some ErrNoTable)
      else (case (if column \<noteq> []
                  then (case Wrap column of
                          (wrapped, Some e) \<Rightarrow> ([], Some e)
                        | (wrapped, None) \<Rightarrow> (''COUNT('' @ wrapped @ '')'', None))
                  else (''COUNT(*)'', None)) of
              (countExpr, Some e) \<Rightarrow> ([], [], Some e)
            | (countExpr, None) \<Rightarrow>
                (case WrapTable (GetTable b) of
                   (table, Some e) \<Rightarrow> ([], [], Some e)
                 | (table, None) \<Rightarrow>
                     (case predicateSection '' WHERE '' (GetWheres b) of
                        (whereSQL, whereArgs, Some e) \<Rightarrow> ([], [], Some e)
                      | (whereSQL, whereArgs, None) \<Rightarrow>
                          (''SELECT '' @ countExpr @ '' FROM '' @ table @ whereSQL,
                           whereArgs, None)))))"

definition CompileAggregate ::
  "('v, 'm) QueryBuilder_scheme \<Rightarrow> string \<Rightarrow> string \<Rightarrow> string \<times> 'v any list \<times> error option" where
  "CompileAggregate b fn column =
     (if GetTable b = [] then ([], [], Some ErrNoTable)
      else if column = [] then ([], [], Some ErrNoColumns)
      else (case Wrap column of
              (wrapped, Some e) \<Rightarrow> ([], [], Some e)
            | (wrapped, None) \<Rightarrow>
                (case WrapTable (GetTable b) of
                   (table, Some e) \<Rightarrow> ([], [], Some e)
                 | (table, None) \<Rightarrow>
                     (case predicateSection '' WHERE '' (GetWheres b) of
                        (whereSQL, whereArgs, Some e) \<Rightarrow> ([], [], Some e)
                      | (whereSQL, whereArgs, None) \<Rightarrow>
                          (''SELECT '' @ toUpper fn @ ''('' @ wrapped @ '') FROM '' @ table @ whereSQL,
                           whereArgs, None)))))"

definition CompileTruncate :: "('v, 'm) QueryBuilder_scheme \<Rightarrow> string \<times> error option" where
  "CompileTruncate b =
     (if GetTable b = [] then ([], Some ErrNoTable)
      else (case WrapTable (GetTable b) of
              (table, Some e) \<Rightarrow> ([], Some e)
            | (table, None) \<Rightarrow> (''TRUNCATE TABLE '' @ table, None)))"

text \<open>The loop of \<open>CompileUpsert\<close> over the columns to update.\<close>

fun upsertPartsLoop :: "string list \<Rightarrow> string list \<times> error option" where
  "upsertPartsLoop [] = ([], None)"
| "upsertPartsLoop (col # cols) =
     (case Wrap col of
        (wrapped, Some e) \<Rightarrow> ([], Some e)
      | (wrapped, None) \<Rightarrow>
          (case upsertPartsLoop cols of
             (updateParts, Some e) \<Rightarrow> ([], Some e)
           | (updateParts, None) \<Rightarrow>
               ((wrapped @ '' = VALUES('' @ wrapped @ '')'') # updateParts, None)))"

definition CompileUpsert ::
  "('v, 'm) QueryBuilder_scheme \<Rightarrow> 'v gomap \<Rightarrow> string list \<Rightarrow> string \<times> 'v any list \<times> error option" where
  "CompileUpsert b data updateColumns =
     (case CompileInsert b data of
        (insertSQL, args, Some e) \<Rightarrow> ([], [], Some e)
      | (insertSQL, args, None) \<Rightarrow>
          (let updateColumns' = (if length updateColumns = 0 then sort (mapKeys data) else updateColumns)
           in case upsertPartsLoop updateColumns' of
                (updateParts, Some e) \<Rightarrow> ([], [], Some e)
              | (updateParts, None) \<Rightarrow>
                  (insertSQL @ '' ON DUPLICATE KEY UPDATE '' @ join '', '' updateParts, args, None)))"


section \<open>Where a statement takes its identifiers from\<close>

text \<open>
  The columns of a predicate: the column of a predicate of any kind but Raw and Nested,
  which \<open>compileWhere\<close> hands to \<open>Wrap\<close> unless it fails before (an empty value list
  of In, a value list of Between that has not two values, a kind without a name), and
  the columns of the children of a Nested predicate. A Raw predicate names no column.
\<close>

fun whereColumns :: "'v WhereClause \<Rightarrow> string list" where
  "whereColumns (WhereClause t boolean column operator val vals nested raw bindings) =
     (case t of
        WhereTypeRaw \<Rightarrow> []
      | WhereTypeNested \<Rightarrow> concat (map whereColumns nested)
      | _ \<Rightarrow> [column])"

definition wheresColumns :: "'v WhereClause list \<Rightarrow> string list" where
  "wheresColumns wheres = concat (map whereColumns wheres)"

text \<open>
  The two columns of a join, which \<open>compileJoin\<close> hands to \<open>Wrap\<close> unless the join is a
  cross join, and the column of an order clause, which \<open>CompileSelect\<close> hands to \<open>Wrap\<close>
  unless the clause has a raw text.
\<close>

definition joinColumns :: "JoinClause \<Rightarrow> string list" where
  "joinColumns j = (if jType j = JoinCross then [] else [jFirst j, jSecond j])"

definition orderColumns :: "OrderClause \<Rightarrow> string list" where
  "orderColumns ord = (if oRaw ord \<noteq> [] then [] else [oColumn ord])"

text \<open>
  The identifiers that \<open>CompileSelect\<close> hands to \<open>Wrap\<close>: the selected columns without a
  space or a parenthesis, the columns of the joins, of the WHERE predicates, of GROUP BY,
  of the HAVING predicates and of ORDER BY; and the tables it hands to \<open>WrapTable\<close>: the
  table of the builder and the tables of the joins. A selected column with a space or a
  parenthesis is not handed to \<open>Wrap\<close> and is not in the list.
\<close>

definition selectIdentifiers :: "('v, 'm) QueryBuilder_scheme \<Rightarrow> string list" where
  "selectIdentifiers b =
     filter (\<lambda>col. \<not> containsAny col '' ()'') (GetColumns b)
     @ concat (map joinColumns (GetJoins b))
     @ wheresColumns (GetWheres b)
     @ GetGroupBy b
     @ wheresColumns (GetHaving b)
     @ concat (map orderColumns (GetOrders b))"

definition selectTables :: "('v, 'm) QueryBuilder_scheme \<Rightarrow> string list" where
  "selectTables b = GetTable b # map jTable (GetJoins b)"

text \<open>The keys that \<open>CompileInsertBatch\<close> hands to \<open>Wrap\<close>: those of the first row.\<close>

definition batchKeys :: "'v gomap list \<Rightarrow> string list" where
  "batchKeys data = (case data of [] \<Rightarrow> [] | firstRow # _ \<Rightarrow> mapKeys firstRow)"

text \<open>The test suite's \<open>mockBuilder{table: t}\<close>: a builder with a table and nothing else.\<close>

definition mockBuilder :: "string \<Rightarrow> 'v QueryBuilder" where
  "mockBuilder t =
     \<lparr>GetTable = t, GetTableAlias = [], GetColumns = [], IsDistinct = False, GetWheres = [],
      GetOrders = [], GetJoins = [], GetGroupBy = [], GetHaving = [], GetLimit = None,
      GetOffset = None\<rparr>"

text \<open>
  Following the words of the specification: walking the predicate list in order, for
  index > 0 the connector of that predicate is emitted between spaces, the connector of
  predicate 0 is never emitted; the text of one predicate is what \<open>compileWhere\<close> returns.
\<close>

definition connectorAndClause :: "'v WhereClause \<Rightarrow> string" where
  "connectorAndClause w = '' '' @ WhereBoolean_String (Boolean w) @ '' '' @ fst (compileWhere w)"

fun specPredicateList :: "'v WhereClause list \<Rightarrow> string" where
  "specPredicateList [] = []"
| "specPredicateList (w # ws) = fst (compileWhere w) @ concat (map connectorAndClause ws)"

definition clauseArgs :: "'v WhereClause \<Rightarrow> 'v any list" where
  "clauseArgs w = fst (snd (compileWhere w))"

definition compiles :: "'v WhereClause \<Rightarrow> bool" where
  "compiles w = (snd (snd (compileWhere w)) = None)"

text \<open>The clauses that the builder's \<open>Where\<close>, \<open>OrWhere\<close> and \<open>WhereNested\<close> append.\<close>

definition basicClause :: "WhereBoolean \<Rightarrow> string \<Rightarrow> string \<Rightarrow> 'v any \<Rightarrow> 'v WhereClause" where
  "basicClause boolean column operator val =
     WhereClause WhereTypeBasic boolean column operator val [] [] [] []"

definition nestedClause :: "WhereBoolean \<Rightarrow> 'v WhereClause list \<Rightarrow> 'v WhereClause" where
  "nestedClause boolean nested = WhereClause WhereTypeNested boolean [] [] None [] nested [] []"

definition rawClause :: "WhereBoolean \<Rightarrow> string \<Rightarrow> 'v any list \<Rightarrow> 'v WhereClause" where
  "rawClause boolean raw bindings = WhereClause WhereTypeRaw boolean [] [] None [] [] raw bindings"

section \<open>Placeholders and bound values\<close>

definition placeholderFree :: "string \<Rightarrow> bool" where
  "placeholderFree s = (CHR ''?'' \<notin> set s)"

text \<open>
  A predicate is balanced when each Raw predicate in it, at any depth of nesting, has as
  many bindings as its text has question marks.
\<close>

fun rawBalanced :: "'v WhereClause \<Rightarrow> bool" where
  "rawBalanced (WhereClause t boolean column operator val vals nested raw bindings) =
     (case t of
        WhereTypeRaw \<Rightarrow> countPlaceholders raw = length bindings
      | WhereTypeNested \<Rightarrow> (\<forall>w \<in> set nested. rawBalanced w)
      | _ \<Rightarrow> True)"

text \<open>
  The texts of a builder that \<open>CompileSelect\<close> emits as they are: raw column expressions,
  raw order expressions, order directions and join types.
\<close>

definition verbatimTextsFree :: "('v, 'm) QueryBuilder_scheme \<Rightarrow> bool" where
  "verbatimTextsFree b =
     ((\<forall>col \<in> set (GetColumns b). containsAny col '' ()'' \<longrightarrow> placeholderFree col)
      \<and> (\<forall>ord \<in> set (GetOrders b). placeholderFree (oRaw ord) \<and> placeholderFree (oDirection ord))
      \<and> (\<forall>j \<in> set (GetJoins b). placeholderFree (jType j)))"

text \<open>
  A predicate with every value of type \<open>any\<close> in it (the value, the values and the
  bindings, at any depth of nesting) replaced by its image under \<open>f\<close>; \<open>f\<close> is any
  function on \<open>any\<close>, so it may turn \<open>nil\<close> into a value and a value into \<open>nil\<close>.
  A result and a builder likewise.
\<close>

fun mapValues :: "('v any \<Rightarrow> 'w any) \<Rightarrow> 'v WhereClause \<Rightarrow> 'w WhereClause" where
  "mapValues f (WhereClause t boolean column operator val vals nested raw bindings) =
     WhereClause t boolean column operator (f val) (map f vals) (map (mapValues f) nested) raw
       (map f bindings)"

definition mapResult ::
  "('v any \<Rightarrow> 'w any) \<Rightarrow> string \<times> 'v any list \<times> error option \<Rightarrow> string \<times> 'w any list \<times> error option" where
  "mapResult f r = (case r of (sql, args, e) \<Rightarrow> (sql, map f args, e))"

definition mapBuilder :: "('v any \<Rightarrow> 'w any) \<Rightarrow> 'v QueryBuilder \<Rightarrow> 'w QueryBuilder" where
  "mapBuilder f b =
     \<lparr>GetTable = GetTable b, GetTableAlias = GetTableAlias b, GetColumns = GetColumns b,
      IsDistinct = IsDistinct b, GetWheres = map (mapValues f) (GetWheres b),
      GetOrders = GetOrders b, GetJoins = GetJoins b, GetGroupBy = GetGroupBy b,
      GetHaving = map (mapValues f) (GetHaving b), GetLimit = GetLimit b,
      GetOffset = GetOffset b\<rparr>"

text \<open>
  The shape of a predicate and of a builder: what is left when every value is replaced
  by \<open>nil\<close>. Two builders of the same shape differ only in their bound values.
\<close>

definition eraseValues :: "'v WhereClause \<Rightarrow> unit WhereClause" where
  "eraseValues w = mapValues (\<lambda>v. None) w"

definition eraseBuilder :: "'v QueryBuilder \<Rightarrow> unit QueryBuilder" where
  "eraseBuilder b = mapBuilder (\<lambda>v. None) b"

text \<open>
  A builder that uses the raw escape hatches, as the fluent calls
  \<open>Table("users").Select("id").SelectRaw("COUNT(*) AS n").WhereRaw("age > ? OR level = ?", bindings...).OrWhere("status", "=", v).OrderByRaw("RAND()")\<close>
  leave it.
\<close>

definition rawExampleBuilder :: "'v any list \<Rightarrow> 'v any \<Rightarrow> 'v QueryBuilder" where
  "rawExampleBuilder bindings v =
     (mockBuilder ''users'')
       \<lparr>GetColumns := [''id'', ''COUNT(*) AS n''],
        GetWheres := [rawClause WhereBooleanAnd ''age > ? OR level = ?'' bindings,
                      basicClause WhereBooleanOr ''status'' ''='' v],
        GetOrders := [\<lparr>oColumn = [], oDirection = [], oRaw = ''RAND()''\<rparr>]\<rparr>"

text \<open>
  What \<open>CompileInsertBatch\<close> checks of each row against the sorted keys of the first
  row: the same number of keys, and every one of these keys present.
\<close>

definition rowConsistent :: "string list \<Rightarrow> 'v gomap \<Rightarrow> bool" where
  "rowConsistent keys row = (mapLen row = length keys \<and> (\<forall>k \<in> set keys. map_of row k \<noteq> None))"

section \<open>The builder\<close>

text \<open>
  The interface \<open>dialect.Grammar\<close>, as far as the builder's \<open>To...SQL\<close> methods call it: a
  grammar is any four functions of these types, the MySQL grammar is one of them.
\<close>

record 'v Grammar =
  grammarCompileSelect :: "'v QueryBuilder \<Rightarrow> string \<times> 'v any list \<times> error option"
  grammarCompileInsert :: "'v QueryBuilder \<Rightarrow> 'v gomap \<Rightarrow> string \<times> 'v any list \<times> error option"
  grammarCompileUpdate :: "'v QueryBuilder \<Rightarrow> 'v gomap \<Rightarrow> string \<times> 'v any list \<times> error option"
  grammarCompileDelete :: "'v QueryBuilder \<Rightarrow> string \<times> 'v any list \<times> error option"

definition MySQL :: "'v Grammar" where
  "MySQL =
     \<lparr>grammarCompileSelect = CompileSelect, grammarCompileInsert = CompileInsert,
      grammarCompileUpdate = CompileUpdate, grammarCompileDelete = CompileDelete\<rparr>"

text \<open>
  The struct \<open>Builder\<close>. The executor and the scanner are interface values that the
  compilation never looks into (\<open>None\<close> is \<open>nil\<close>); the field \<open>distinct\<close> is \<open>distinctFlag\<close>
  here, \<open>distinct\<close> being a constant of the list library.
\<close>

record ('v, 'x, 's) Builder =
  executor :: "'x option"
  grammar :: "'v Grammar option"
  scanner :: "'s option"
  table :: string
  tableAlias :: string
  columns :: "string list"
  distinctFlag :: bool
  wheres :: "'v WhereClause list"
  orders :: "OrderClause list"
  joins :: "JoinClause list"
  groupBy :: "string list"
  having :: "'v WhereClause list"
  limit :: "int option"
  offset :: "int option"
  err :: "error option"

text \<open>The builder as the grammar sees it, through its methods \<open>GetTable\<close> to \<open>GetOffset\<close>.\<close>

definition asQueryBuilder :: "('v, 'x, 's) Builder \<Rightarrow> 'v QueryBuilder" where
  "asQueryBuilder b =
     \<lparr>GetTable = table b, GetTableAlias = tableAlias b, GetColumns = columns b,
      IsDistinct = distinctFlag b, GetWheres = wheres b, GetOrders = orders b,
      GetJoins = joins b, GetGroupBy = groupBy b, GetHaving = having b,
      GetLimit = limit b, GetOffset = offset b\<rparr>"

definition Err :: "('v, 'x, 's) Builder \<Rightarrow> error option" where
  "Err b = err b"

definition ToSelectSQL :: "('v, 'x, 's) Builder \<Rightarrow> string \<times> 'v any list \<times> error option" where
  "ToSelectSQL b =
     (if err b \<noteq> None then ([], [], err b)
      else (case grammar b of
              None \<Rightarrow> ([], [], Some ErrNoExecutor)
            | Some g \<Rightarrow> grammarCompileSelect g (asQueryBuilder b)))"

definition ToInsertSQL ::
  "('v, 'x, 's) Builder \<Rightarrow> 'v gomap \<Rightarrow> string \<times> 'v any list \<times> error option" where
  "ToInsertSQL b data =
     (if err b \<noteq> None then ([], [], err b)
      else (case grammar b of
              None \<Rightarrow> ([], [], Some ErrNoExecutor)
            | Some g \<Rightarrow> grammarCompileInsert g (asQueryBuilder b) data))"

definition ToUpdateSQL ::
  "('v, 'x, 's) Builder \<Rightarrow> 'v gomap \<Rightarrow> string \<times> 'v any list \<times> error option" where
  "ToUpdateSQL b data =
     (if err b \<noteq> None then ([], [], err b)
      else (case grammar b of
              None \<Rightarrow> ([], [], Some ErrNoExecutor)
            | Some g \<Rightarrow> grammarCompileUpdate g (asQueryBuilder b) data))"

definition ToDeleteSQL :: "('v, 'x, 's) Builder \<Rightarrow> string \<times> 'v any list \<times> error option" where
  "ToDeleteSQL b =
     (if err b \<noteq> None then ([], [], err b)
      else (case grammar b of
              None \<Rightarrow> ([], [], Some ErrNoExecutor)
            | Some g \<Rightarrow> grammarCompileDelete g (asQueryBuilder b)))"

text \<open>\<open>NewBuilder(executor, grammar, scanner)\<close> followed by \<open>Table(name)\<close>.\<close>

definition newBuilderOn ::
  "'x option \<Rightarrow> 'v Grammar option \<Rightarrow> 's option \<Rightarrow> string \<Rightarrow> ('v, 'x, 's) Builder" where
  "newBuilderOn e g s name =
     \<lparr>executor = e, grammar = g, scanner = s, table = name, tableAlias = [], columns = [],
      distinctFlag = False, wheres = [], orders = [], joins = [], groupBy = [], having = [],
      limit = None, offset = None, err = None\<rparr>"

section \<open>The builder in memory\<close>

text \<open>
  What \<open>Clone\<close> copies and what it shares is a matter of backing arrays, so here the
  builder is laid out in a store. A slice is the address of its backing array and its
  length; the slices of a builder start at index 0 of their arrays, and the capacity,
  which only \<open>append\<close> reads, is left out. Address 0 is the nil pointer. A \<open>WhereClause\<close>
  in an array holds its three slices as such, its strings and its value as values.
\<close>

record slice =
  ptr :: nat
  len :: nat

definition nilSlice :: slice where
  "nilSlice = \<lparr>ptr = 0, len = 0\<rparr>"

datatype 'v WhereCell = WhereCell
  (cellType: WhereType)
  (cellBoolean: WhereBoolean)
  (cellColumn: string)
  (cellOperator: string)
  (cellValue: "'v any")
  (cellValues: slice)
  (cellNested: slice)
  (cellRaw: string)
  (cellBindings: slice)

record 'v store =
  stringArrays :: "nat \<Rightarrow> string list"
  valueArrays :: "nat \<Rightarrow> 'v any list"
  whereArrays :: "nat \<Rightarrow> 'v WhereCell list"
  orderArrays :: "nat \<Rightarrow> OrderClause list"
  joinArrays :: "nat \<Rightarrow> JoinClause list"
  nextFree :: nat

text \<open>
  The struct \<open>Builder\<close> in memory: the executor, the grammar and the scanner are
  references, \<open>limit\<close> and \<open>offset\<close> are pointers to integers.
\<close>

record BuilderMem =
  memExecutor :: nat
  memGrammar :: nat
  memScanner :: nat
  memTable :: string
  memTableAlias :: string
  memColumns :: slice
  memDistinct :: bool
  memWheres :: slice
  memOrders :: slice
  memJoins :: slice
  memGroupBy :: slice
  memHaving :: slice
  memLimit :: nat
  memOffset :: nat
  memErr :: "error option"

text \<open>\<open>make([]T, len(src))\<close> followed by \<open>copy(dst, src)\<close>: the contents of the new array.\<close>

definition copied :: "(nat \<Rightarrow> 'a list) \<Rightarrow> slice \<Rightarrow> 'a list" where
  "copied arrays src = take (len src) (arrays (ptr src))"

definition Clone :: "'v store \<Rightarrow> BuilderMem \<Rightarrow> BuilderMem \<times> 'v store" where
  "Clone st b =
     (let a = nextFree st
      in (\<lparr>memExecutor = memExecutor b, memGrammar = memGrammar b, memScanner = memScanner b,
           memTable = memTable b, memTableAlias = memTableAlias b,
           memColumns = \<lparr>ptr = a, len = len (memColumns b)\<rparr>,
           memDistinct = memDistinct b,
           memWheres = \<lparr>ptr = a + 1, len = len (memWheres b)\<rparr>,
           memOrders = \<lparr>ptr = a + 2, len = len (memOrders b)\<rparr>,
           memJoins = \<lparr>ptr = a + 3, len = len (memJoins b)\<rparr>,
           memGroupBy = \<lparr>ptr = a + 4, len = len (memGroupBy b)\<rparr>,
           memHaving = \<lparr>ptr = a + 5, len = len (memHaving b)\<rparr>,
           memLimit = memLimit b, memOffset = memOffset b, memErr = memErr b\<rparr>,
          st\<lparr>stringArrays := (stringArrays st)
                 (a := copied (stringArrays st) (memColumns b),
                  a + 4 := copied (stringArrays st) (memGroupBy b)),
             whereArrays := (whereArrays st)
                 (a + 1 := copied (whereArrays st) (memWheres b),
                  a + 5 := copied (whereArrays st) (memHaving b)),
             orderArrays := (orderArrays st)(a + 2 := copied (orderArrays st) (memOrders b)),
             joinArrays := (joinArrays st)(a + 3 := copied (joinArrays st) (memJoins b)),
             nextFree := a + 6\<rparr>))"

text \<open>Reading a slice, and the assignment \<open>s[i] = v\<close>, which panics out of range.\<close>

definition readStrings :: "'v store \<Rightarrow> slice \<Rightarrow> string list" where
  "readStrings st s = take (len s) (stringArrays st (ptr s))"

definition readValues :: "'v store \<Rightarrow> slice \<Rightarrow> 'v any list" where
  "readValues st s = take (len s) (valueArrays st (ptr s))"

definition readWheres :: "'v store \<Rightarrow> slice \<Rightarrow> 'v WhereCell list" where
  "readWheres st s = take (len s) (whereArrays st (ptr s))"

definition setString :: "'v store \<Rightarrow> slice \<Rightarrow> nat \<Rightarrow> string \<Rightarrow> 'v store option" where
  "setString st s i v =
     (if i < len s
      then Some (st\<lparr>stringArrays := (stringArrays st)(ptr s := (stringArrays st (ptr s))[i := v])\<rparr>)
      else None)"

definition setValue :: "'v store \<Rightarrow> slice \<Rightarrow> nat \<Rightarrow> 'v any \<Rightarrow> 'v store option" where
  "setValue st s i v =
     (if i < len s
      then Some (st\<lparr>valueArrays := (valueArrays st)(ptr s := (valueArrays st (ptr s))[i := v])\<rparr>)
      else None)"

text \<open>The values of the \<open>Values\<close> slices of the predicates of a builder, as the store has them.\<close>

definition wheresValues :: "'v store \<Rightarrow> BuilderMem \<Rightarrow> 'v any list list" where
  "wheresValues st b = map (\<lambda>c. readValues st (cellValues c)) (readWheres st (memWheres b))"

text \<open>
  The store and the builder after
  \<open>vals := []any{1, 2}; b := NewBuilder(e, g, s).Table("users").Select("id").WhereIn("id", vals)\<close>:
  the array of \<open>vals\<close> at address 1, the columns at 2, the predicates at 3.
\<close>

definition exampleStore :: "nat store" where
  "exampleStore =
     \<lparr>stringArrays = (\<lambda>_. [])(2 := [''id'']),
      valueArrays = (\<lambda>_. [])(1 := [Some 1, Some 2]),
      whereArrays = (\<lambda>_. [])
        (3 := [WhereCell WhereTypeIn WhereBooleanAnd ''id'' [] None \<lparr>ptr = 1, len = 2\<rparr>
                 nilSlice [] nilSlice]),
      orderArrays = (\<lambda>_. []),
      joinArrays = (\<lambda>_. []),
      nextFree = 4\<rparr>"

definition exampleBuilderMem :: BuilderMem where
  "exampleBuilderMem =
     \<lparr>memExecutor = 0, memGrammar = 0, memScanner = 0, memTable = ''users'', memTableAlias = [],
      memColumns = \<lparr>ptr = 2, len = 1\<rparr>, memDistinct = False,
      memWheres = \<lparr>ptr = 3, len = 1\<rparr>, memOrders = nilSlice, memJoins = nilSlice,
      memGroupBy = nilSlice, memHaving = nilSlice, memLimit = 0, memOffset = 0, memErr = None\<rparr>"

section \<open>Verified properties\<close>

subsection \<open>Errors leave no text behind\<close>

lemma compileWheresLoop_error:
  "compileWheresLoop i ws sql args = (s, a, Some e) \<Longrightarrow> s = [] \<and> a = []"
  by (induction ws arbitrary: i sql args) (auto simp: Let_def split: prod.splits option.splits)

lemma compileWheres_error: "compileWheres ws = (s, a, Some e) \<Longrightarrow> s = [] \<and> a = []"
  by (auto simp: compileWheres.simps dest: compileWheresLoop_error split: if_splits)

lemma CompileSelect_error: "CompileSelect b = (s, a, Some e) \<Longrightarrow> s = [] \<and> a = []"
  by (auto simp: CompileSelect_def split: prod.splits option.splits if_splits)

lemma CompileInsert_error: "CompileInsert b data = (s, a, Some e) \<Longrightarrow> s = [] \<and> a = []"
  by (auto simp: CompileInsert_def Let_def split: prod.splits option.splits if_splits)

lemma CompileInsertBatch_error: "CompileInsertBatch b rows = (s, a, Some e) \<Longrightarrow> s = [] \<and> a = []"
  by (auto simp: CompileInsertBatch_def Let_def split: prod.splits option.splits if_splits list.splits)

lemma CompileUpdate_error: "CompileUpdate b data = (s, a, Some e) \<Longrightarrow> s = [] \<and> a = []"
  by (auto simp: CompileUpdate_def Let_def split: prod.splits option.splits if_splits)

lemma CompileDelete_error: "CompileDelete b = (s, a, Some e) \<Longrightarrow> s = [] \<and> a = []"
  by (auto simp: CompileDelete_def split: prod.splits option.splits if_splits)

lemma CompileExists_error: "CompileExists b = (s, a, Some e) \<Longrightarrow> s = [] \<and> a = []"
  by (auto simp: CompileExists_def split: prod.splits option.splits if_splits)

lemma CompileCount_error: "CompileCount b column = (s, a, Some e) \<Longrightarrow> s = [] \<and> a = []"
  by (auto simp: CompileCount_def split: prod.splits option.splits if_splits)

lemma CompileAggregate_error:
  "CompileAggregate b fn column = (s, a, Some e) \<Longrightarrow> s = [] \<and> a = []"
  by (auto simp: CompileAggregate_def split: prod.splits option.splits if_splits)

lemma CompileTruncate_error: "CompileTruncate b = (s, Some e) \<Longrightarrow> s = []"
  by (auto simp: CompileTruncate_def split: prod.splits option.splits if_splits)

lemma CompileUpsert_error:
  "CompileUpsert b data updateColumns = (s, a, Some e) \<Longrightarrow> s = [] \<and> a = []"
  by (auto simp: CompileUpsert_def Let_def split: prod.splits option.splits if_splits)

text \<open>
  C6. Every compile method of the MySQL grammar is all-or-nothing: when the error it
  returns is not nil, the SQL string it returns is empty.
\<close>

theorem compile_all_or_nothing:
  fixes b :: "('v, 'm) QueryBuilder_scheme"
  shows "(snd (snd (CompileSelect b)) \<noteq> None \<longrightarrow> fst (CompileSelect b) = [])
    \<and> (snd (snd (CompileInsert b data)) \<noteq> None \<longrightarrow> fst (CompileInsert b data) = [])
    \<and> (snd (snd (CompileInsertBatch b rows)) \<noteq> None \<longrightarrow> fst (CompileInsertBatch b rows) = [])
    \<and> (snd (snd (CompileUpdate b data)) \<noteq> None \<longrightarrow> fst (CompileUpdate b data) = [])
    \<and> (snd (snd (CompileDelete b)) \<noteq> None \<longrightarrow> fst (CompileDelete b) = [])
    \<and> (snd (snd (CompileExists b)) \<noteq> None \<longrightarrow> fst (CompileExists b) = [])
    \<and> (snd (snd (CompileCount b column)) \<noteq> None \<longrightarrow> fst (CompileCount b column) = [])
    \<and> (snd (snd (CompileAggregate b fn column)) \<noteq> None \<longrightarrow> fst (CompileAggregate b fn column) = [])
    \<and> (snd (CompileTruncate b) \<noteq> None \<longrightarrow> fst (CompileTruncate b) = [])
    \<and> (snd (snd (CompileUpsert b data updateColumns)) \<noteq> None
          \<longrightarrow> fst (CompileUpsert b data updateColumns) = [])"
proof (intro conjI)
  show "snd (snd (CompileSelect b)) \<noteq> None \<longrightarrow> fst (CompileSelect b) = []"
    by (cases "CompileSelect b") (auto dest: CompileSelect_error)
  show "snd (snd (CompileInsert b data)) \<noteq> None \<longrightarrow> fst (CompileInsert b data) = []"
    by (cases "CompileInsert b data") (auto dest: CompileInsert_error)
  show "snd (snd (CompileInsertBatch b rows)) \<noteq> None \<longrightarrow> fst (CompileInsertBatch b rows) = []"
    by (cases "CompileInsertBatch b rows") (auto dest: CompileInsertBatch_error)
  show "snd (snd (CompileUpdate b data)) \<noteq> None \<longrightarrow> fst (CompileUpdate b data) = []"
    by (cases "CompileUpdate b data") (auto dest: CompileUpdate_error)
  show "snd (snd (CompileDelete b)) \<noteq> None \<longrightarrow> fst (CompileDelete b) = []"
    by (cases "CompileDelete b") (auto dest: CompileDelete_error)
  show "snd (snd (CompileExists b)) \<noteq> None \<longrightarrow> fst (CompileExists b) = []"
    by (cases "CompileExists b") (auto dest: CompileExists_error)
  show "snd (snd (CompileCount b column)) \<noteq> None \<longrightarrow> fst (CompileCount b column) = []"
    by (cases "CompileCount b column") (auto dest: CompileCount_error)
  show "snd (snd (CompileAggregate b fn column)) \<noteq> None \<longrightarrow> fst (CompileAggregate b fn column) = []"
    by (cases "CompileAggregate b fn column") (auto dest: CompileAggregate_error)
  show "snd (CompileTruncate b) \<noteq> None \<longrightarrow> fst (CompileTruncate b) = []"
    by (cases "CompileTruncate b") (auto dest: CompileTruncate_error)
  show "snd (snd (CompileUpsert b data updateColumns)) \<noteq> None
          \<longrightarrow> fst (CompileUpsert b data updateColumns) = []"
    by (cases "CompileUpsert b data updateColumns") (auto dest: CompileUpsert_error)
qed

theorem compile_all_or_nothing_witness:
  "snd (snd (CompileSelect (mockBuilder ''users;DROP'' :: unit QueryBuilder))) \<noteq> None
   \<and> fst (CompileSelect (mockBuilder ''users;DROP'' :: unit QueryBuilder)) = []
   \<and> snd (snd (CompileInsertBatch (mockBuilder ''users'' :: unit QueryBuilder)
                  [[(''a'', None)], [(''b'', None)]])) \<noteq> None
   \<and> fst (CompileInsertBatch (mockBuilder ''users'' :: unit QueryBuilder)
             [[(''a'', None)], [(''b'', None)]]) = []"
proof -
  have h1: "snd (snd (CompileSelect (mockBuilder ''users;DROP'' :: unit QueryBuilder))) \<noteq> None"
    by code_simp
  have h2: "snd (snd (CompileInsertBatch (mockBuilder ''users'' :: unit QueryBuilder)
                  [[(''a'', None)], [(''b'', None)]])) \<noteq> None"
    by code_simp
  note t1 = compile_all_or_nothing [where b = "mockBuilder ''users;DROP'' :: unit QueryBuilder"
      and data = "[]" and rows = "[]" and column = "[]" and fn = "[]" and updateColumns = "[]"]
  note t2 = compile_all_or_nothing [where b = "mockBuilder ''users'' :: unit QueryBuilder"
      and data = "[]" and rows = "[[(''a'', None)], [(''b'', None)]]" and column = "[]"
      and fn = "[]" and updateColumns = "[]"]
  from t1 h1 have c1: "fst (CompileSelect (mockBuilder ''users;DROP'' :: unit QueryBuilder)) = []"
    by blast
  from t2 h2 have c2: "fst (CompileInsertBatch (mockBuilder ''users'' :: unit QueryBuilder)
             [[(''a'', None)], [(''b'', None)]]) = []"
    by blast
  from h1 h2 c1 c2 show ?thesis by simp
qed

subsection \<open>How a refused identifier stops a statement\<close>

lemma insertColumnsLoop_fails:
  "\<exists>k \<in> set keys. snd (Wrap k) \<noteq> None \<Longrightarrow>
   fst (insertColumnsLoop d keys) = [] \<and> snd (snd (insertColumnsLoop d keys)) \<noteq> None"
proof (induction keys)
  case Nil
  then show ?case by simp
next
  case (Cons k keys)
  show ?case
  proof (cases "snd (Wrap k) = None")
    case False
    then show ?thesis by (cases "Wrap k") auto
  next
    case True
    with Cons.prems have "\<exists>x \<in> set keys. snd (Wrap x) \<noteq> None" by auto
    from Cons.IH [OF this] True show ?thesis
      by (cases "Wrap k"; cases "insertColumnsLoop d keys") auto
  qed
qed

lemma CompileInsert_refused:
  assumes "snd (WrapTable (GetTable b)) \<noteq> None \<or> (\<exists>k \<in> set (mapKeys d). snd (Wrap k) \<noteq> None)"
  shows "fst (CompileInsert b d) = [] \<and> snd (snd (CompileInsert b d)) \<noteq> None"
proof -
  {
    assume "\<exists>k \<in> set (mapKeys d). snd (Wrap k) \<noteq> None"
    then have "\<exists>k \<in> set (sort (mapKeys d)). snd (Wrap k) \<noteq> None" by simp
    from insertColumnsLoop_fails [OF this, of d]
    have "snd (snd (insertColumnsLoop d (sort (mapKeys d)))) \<noteq> None" by simp
    then have "snd (snd (CompileInsert b d)) \<noteq> None"
      by (auto simp: CompileInsert_def Let_def split: prod.splits option.splits)
  }
  moreover
  {
    assume "snd (WrapTable (GetTable b)) \<noteq> None"
    then have "snd (snd (CompileInsert b d)) \<noteq> None"
      by (auto simp: CompileInsert_def Let_def split: prod.splits option.splits)
  }
  ultimately have e: "snd (snd (CompileInsert b d)) \<noteq> None" using assms by blast
  then show ?thesis by (cases "CompileInsert b d") (auto dest: CompileInsert_error)
qed

lemma compileWheresLoop_fails:
  "\<exists>w \<in> set ws. \<not> compiles w \<Longrightarrow> \<exists>e. compileWheresLoop i ws sql args = ([], [], Some e)"
proof (induction ws arbitrary: i sql args)
  case Nil
  then show ?case by simp
next
  case (Cons w ws)
  show ?case
  proof (cases "compiles w")
    case False
    then show ?thesis by (cases "compileWhere w") (auto simp: compiles_def)
  next
    case True
    then obtain s a where w: "compileWhere w = (s, a, None)"
      by (cases "compileWhere w") (auto simp: compiles_def)
    from True Cons.prems have "\<exists>x \<in> set ws. \<not> compiles x" by auto
    from Cons.IH [OF this] w show ?thesis by (simp add: Let_def)
  qed
qed

lemma compileWheres_fails:
  "\<exists>w \<in> set ws. \<not> compiles w \<Longrightarrow> \<exists>e. compileWheres ws = ([], [], Some e)"
  using compileWheresLoop_fails [of ws 0 "[]" "[]"] by (cases ws) (auto simp: compileWheres.simps)

lemma wrapEach_fails:
  "\<exists>k \<in> set cols. snd (Wrap k) \<noteq> None \<Longrightarrow> snd (wrapEach cols) \<noteq> None"
proof (induction cols)
  case Nil
  then show ?case by simp
next
  case (Cons k cols)
  show ?case
  proof (cases "snd (Wrap k) = None")
    case False
    then show ?thesis by (cases "Wrap k") auto
  next
    case True
    with Cons.prems have "\<exists>x \<in> set cols. snd (Wrap x) \<noteq> None" by auto
    from Cons.IH [OF this] True show ?thesis
      by (cases "Wrap k"; cases "wrapEach cols") auto
  qed
qed

lemma selectColumnsLoop_fails:
  "\<exists>k \<in> set cols. \<not> containsAny k '' ()'' \<and> snd (Wrap k) \<noteq> None \<Longrightarrow>
   snd (selectColumnsLoop cols) \<noteq> None"
proof (induction cols)
  case Nil
  then show ?case by simp
next
  case (Cons k cols)
  show ?case
  proof (cases "\<not> containsAny k '' ()'' \<and> snd (Wrap k) \<noteq> None")
    case True
    then show ?thesis by (cases "Wrap k") auto
  next
    case False
    with Cons.prems
    have "\<exists>x \<in> set cols. \<not> containsAny x '' ()'' \<and> snd (Wrap x) \<noteq> None" by auto
    from Cons.IH [OF this] show ?thesis
      by (cases "Wrap k"; cases "selectColumnsLoop cols") (auto split: option.splits)
  qed
qed

lemma ordersLoop_fails:
  "\<exists>ord \<in> set ords. oRaw ord = [] \<and> snd (Wrap (oColumn ord)) \<noteq> None \<Longrightarrow>
   snd (ordersLoop ords) \<noteq> None"
proof (induction ords)
  case Nil
  then show ?case by simp
next
  case (Cons ord ords)
  show ?case
  proof (cases "oRaw ord = [] \<and> snd (Wrap (oColumn ord)) \<noteq> None")
    case True
    then show ?thesis by (cases "Wrap (oColumn ord)") auto
  next
    case False
    with Cons.prems
    have "\<exists>x \<in> set ords. oRaw x = [] \<and> snd (Wrap (oColumn x)) \<noteq> None" by auto
    from Cons.IH [OF this] show ?thesis
      by (cases "Wrap (oColumn ord)"; cases "ordersLoop ords") (auto split: option.splits)
  qed
qed

lemma compileJoin_fails:
  "snd (WrapTable (jTable j)) \<noteq> None
   \<or> (\<exists>k \<in> set (joinColumns j). snd (Wrap k) \<noteq> None) \<Longrightarrow>
   snd (compileJoin j) \<noteq> None"
  by (cases "WrapTable (jTable j)"; cases "Wrap (jFirst j)"; cases "Wrap (jSecond j)")
     (auto simp: compileJoin_def joinColumns_def split: option.splits if_splits)

lemma joinsLoop_fails:
  "\<exists>j \<in> set js. snd (compileJoin j) \<noteq> None \<Longrightarrow> snd (joinsLoop js) \<noteq> None"
proof (induction js)
  case Nil
  then show ?case by simp
next
  case (Cons j js)
  show ?case
  proof (cases "snd (compileJoin j) = None")
    case False
    then show ?thesis by (cases "compileJoin j") auto
  next
    case True
    with Cons.prems have "\<exists>x \<in> set js. snd (compileJoin x) \<noteq> None" by auto
    from Cons.IH [OF this] True show ?thesis
      by (cases "compileJoin j"; cases "joinsLoop js") auto
  qed
qed

lemma updateSetLoop_fails:
  "\<exists>k \<in> set keys. snd (Wrap k) \<noteq> None \<Longrightarrow> snd (snd (updateSetLoop d i keys)) \<noteq> None"
proof (induction keys arbitrary: i)
  case Nil
  then show ?case by simp
next
  case (Cons k keys)
  show ?case
  proof (cases "snd (Wrap k) = None")
    case False
    then show ?thesis by (cases "Wrap k") auto
  next
    case True
    with Cons.prems have "\<exists>x \<in> set keys. snd (Wrap x) \<noteq> None" by auto
    from Cons.IH [OF this, of "Suc i"] True show ?thesis
      by (cases "Wrap k"; cases "updateSetLoop d (Suc i) keys") auto
  qed
qed

lemma upsertPartsLoop_fails:
  "\<exists>k \<in> set cols. snd (Wrap k) \<noteq> None \<Longrightarrow> snd (upsertPartsLoop cols) \<noteq> None"
proof (induction cols)
  case Nil
  then show ?case by simp
next
  case (Cons k cols)
  show ?case
  proof (cases "snd (Wrap k) = None")
    case False
    then show ?thesis by (cases "Wrap k") auto
  next
    case True
    with Cons.prems have "\<exists>x \<in> set cols. snd (Wrap x) \<noteq> None" by auto
    from Cons.IH [OF this] True show ?thesis
      by (cases "Wrap k"; cases "upsertPartsLoop cols") auto
  qed
qed

lemma compileWhere_bad_column:
  "s \<in> set (whereColumns w) \<Longrightarrow> snd (Wrap s) \<noteq> None \<Longrightarrow> \<not> compiles w"
proof (induction w)
  case (WhereClause t b c op v vs nested raw binds)
  let ?w = "WhereClause t b c op v vs nested raw binds"
  show ?case
  proof (cases "t = WhereTypeNested")
    case True
    with WhereClause.prems obtain x where x: "x \<in> set nested" "s \<in> set (whereColumns x)"
      by auto
    with WhereClause.IH WhereClause.prems have "\<not> compiles x" by blast
    with x have "\<exists>x \<in> set nested. \<not> compiles x" by blast
    from compileWheres_fails [OF this] obtain e where "compileWheres nested = ([], [], Some e)"
      by blast
    moreover from x have "nested \<noteq> []" by auto
    ultimately show ?thesis using True
      by (simp add: compiles_def compileWhere.simps compileWhereNested.simps)
  next
    case False
    with WhereClause.prems have c: "t \<noteq> WhereTypeRaw" "c = s"
      by (auto split: WhereType.splits)
    obtain wr e where "Wrap s = (wr, Some e)"
      using WhereClause.prems(2) by (cases "Wrap s") auto
    with c False show ?thesis
      by (cases t)
         (simp_all add: compiles_def compileWhere.simps compileWhereBasic_def compileWhereIn_def
            compileWhereBetween_def compileWhereNull_def compileWhereDate_def)
  qed
qed

lemma predicateSection_fails:
  assumes "s \<in> set (wheresColumns ws)" and "snd (Wrap s) \<noteq> None"
  shows "snd (snd (predicateSection k ws)) \<noteq> None"
proof -
  from assms(1) obtain w where w: "w \<in> set ws" "s \<in> set (whereColumns w)"
    by (auto simp: wheresColumns_def)
  with assms(2) have "\<exists>w \<in> set ws. \<not> compiles w" by (blast dest: compileWhere_bad_column)
  from compileWheres_fails [OF this] obtain e where "compileWheres ws = ([], [], Some e)" by blast
  moreover from w have "ws \<noteq> []" by auto
  ultimately show ?thesis by (simp add: predicateSection_def)
qed

lemma selectColumns_fails:
  "s \<in> set cols \<Longrightarrow> \<not> containsAny s '' ()'' \<Longrightarrow> snd (Wrap s) \<noteq> None \<Longrightarrow>
   snd (selectColumns cols) \<noteq> None"
  using selectColumnsLoop_fails [of cols]
  by (cases "selectColumnsLoop cols") (auto simp: selectColumns_def split: option.splits)

lemma groupBySection_fails:
  "s \<in> set groups \<Longrightarrow> snd (Wrap s) \<noteq> None \<Longrightarrow> snd (groupBySection groups) \<noteq> None"
  using wrapEach_fails [of groups]
  by (cases "wrapEach groups") (auto simp: groupBySection_def split: option.splits)

lemma orderBySection_fails:
  assumes "s \<in> set (concat (map orderColumns ords))" and "snd (Wrap s) \<noteq> None"
  shows "snd (orderBySection ords) \<noteq> None"
proof -
  from assms have "\<exists>ord \<in> set ords. oRaw ord = [] \<and> snd (Wrap (oColumn ord)) \<noteq> None"
    by (auto simp: orderColumns_def split: if_splits)
  from ordersLoop_fails [OF this] assms(1) show ?thesis
    by (cases "ordersLoop ords") (auto simp: orderBySection_def split: option.splits)
qed

lemma joinsLoop_bad_column:
  assumes "s \<in> set (concat (map joinColumns js))" and "snd (Wrap s) \<noteq> None"
  shows "snd (joinsLoop js) \<noteq> None"
proof -
  from assms obtain j where "j \<in> set js" "\<exists>k \<in> set (joinColumns j). snd (Wrap k) \<noteq> None"
    by auto
  then have "\<exists>j \<in> set js. snd (compileJoin j) \<noteq> None"
    using compileJoin_fails [of j] by blast
  then show ?thesis by (rule joinsLoop_fails)
qed

lemma joinsLoop_bad_table:
  assumes "s \<in> set (map jTable js)" and "snd (WrapTable s) \<noteq> None"
  shows "snd (joinsLoop js) \<noteq> None"
proof -
  from assms obtain j where "j \<in> set js" "snd (WrapTable (jTable j)) \<noteq> None" by auto
  then have "\<exists>j \<in> set js. snd (compileJoin j) \<noteq> None"
    using compileJoin_fails [of j] by blast
  then show ?thesis by (rule joinsLoop_fails)
qed

lemma CompileSelect_section_error:
  "snd (selectColumns (GetColumns b)) \<noteq> None \<or> snd (WrapTable (GetTable b)) \<noteq> None
   \<or> snd (joinsLoop (GetJoins b)) \<noteq> None
   \<or> snd (snd (predicateSection '' WHERE '' (GetWheres b))) \<noteq> None
   \<or> snd (groupBySection (GetGroupBy b)) \<noteq> None
   \<or> snd (snd (predicateSection '' HAVING '' (GetHaving b))) \<noteq> None
   \<or> snd (orderBySection (GetOrders b)) \<noteq> None \<Longrightarrow>
   snd (snd (CompileSelect b)) \<noteq> None"
  by (auto simp: CompileSelect_def split: prod.splits option.splits)

lemma CompileSelect_refuses:
  assumes "(s \<in> set (selectIdentifiers b) \<and> snd (Wrap s) \<noteq> None)
           \<or> (s \<in> set (selectTables b) \<and> snd (WrapTable s) \<noteq> None)"
  shows "snd (snd (CompileSelect b)) \<noteq> None \<and> fst (CompileSelect b) = []"
proof -
  have "snd (snd (CompileSelect b)) \<noteq> None"
  proof (rule CompileSelect_section_error)
    from assms
    show "snd (selectColumns (GetColumns b)) \<noteq> None \<or> snd (WrapTable (GetTable b)) \<noteq> None
       \<or> snd (joinsLoop (GetJoins b)) \<noteq> None
       \<or> snd (snd (predicateSection '' WHERE '' (GetWheres b))) \<noteq> None
       \<or> snd (groupBySection (GetGroupBy b)) \<noteq> None
       \<or> snd (snd (predicateSection '' HAVING '' (GetHaving b))) \<noteq> None
       \<or> snd (orderBySection (GetOrders b)) \<noteq> None"
      unfolding selectIdentifiers_def selectTables_def
      using selectColumns_fails [of s "GetColumns b"] joinsLoop_bad_column [of s "GetJoins b"]
        joinsLoop_bad_table [of s "GetJoins b"]
        predicateSection_fails [of s "GetWheres b" "'' WHERE ''"]
        predicateSection_fails [of s "GetHaving b" "'' HAVING ''"]
        groupBySection_fails [of s "GetGroupBy b"] orderBySection_fails [of s "GetOrders b"]
      by (auto simp del: set_concat)
  qed
  then show ?thesis by (cases "CompileSelect b") (auto dest: CompileSelect_error)
qed

lemma CompileInsertBatch_refuses:
  assumes "(GetTable b = s \<and> snd (WrapTable s) \<noteq> None)
           \<or> (s \<in> set (batchKeys rows) \<and> snd (Wrap s) \<noteq> None)"
  shows "snd (snd (CompileInsertBatch b rows)) \<noteq> None \<and> fst (CompileInsertBatch b rows) = []"
proof -
  have "snd (snd (CompileInsertBatch b rows)) \<noteq> None"
  proof (cases rows)
    case Nil
    then show ?thesis by (simp add: CompileInsertBatch_def)
  next
    case (Cons first rest)
    from assms show ?thesis
    proof
      assume "GetTable b = s \<and> snd (WrapTable s) \<noteq> None"
      then show ?thesis
        by (auto simp: CompileInsertBatch_def Let_def split: list.splits prod.splits option.splits)
    next
      assume "s \<in> set (batchKeys rows) \<and> snd (Wrap s) \<noteq> None"
      with Cons have "\<exists>k \<in> set (sort (mapKeys first)). snd (Wrap k) \<noteq> None"
        by (auto simp: batchKeys_def)
      from wrapEach_fails [OF this] Cons show ?thesis
        by (auto simp: CompileInsertBatch_def Let_def split: prod.splits option.splits)
    qed
  qed
  then show ?thesis by (cases "CompileInsertBatch b rows") (auto dest: CompileInsertBatch_error)
qed

lemma CompileUpdate_refuses:
  assumes "(GetTable b = s \<and> snd (WrapTable s) \<noteq> None)
           \<or> ((s \<in> set (mapKeys d) \<or> s \<in> set (wheresColumns (GetWheres b)))
               \<and> snd (Wrap s) \<noteq> None)"
  shows "snd (snd (CompileUpdate b d)) \<noteq> None \<and> fst (CompileUpdate b d) = []"
proof -
  have "snd (WrapTable (GetTable b)) \<noteq> None
        \<or> snd (snd (updateSetLoop d 0 (sort (mapKeys d)))) \<noteq> None
        \<or> snd (snd (predicateSection '' WHERE '' (GetWheres b))) \<noteq> None"
    using assms updateSetLoop_fails [of "sort (mapKeys d)" d 0]
      predicateSection_fails [of s "GetWheres b" "'' WHERE ''"]
    by auto
  then have "snd (snd (CompileUpdate b d)) \<noteq> None"
    by (auto simp: CompileUpdate_def Let_def split: prod.splits option.splits)
  then show ?thesis by (cases "CompileUpdate b d") (auto dest: CompileUpdate_error)
qed

lemma CompileDelete_refuses:
  assumes "(GetTable b = s \<and> snd (WrapTable s) \<noteq> None)
           \<or> (s \<in> set (wheresColumns (GetWheres b)) \<and> snd (Wrap s) \<noteq> None)"
  shows "snd (snd (CompileDelete b)) \<noteq> None \<and> fst (CompileDelete b) = []"
proof -
  have "snd (WrapTable (GetTable b)) \<noteq> None
        \<or> snd (snd (predicateSection '' WHERE '' (GetWheres b))) \<noteq> None"
    using assms predicateSection_fails [of s "GetWheres b" "'' WHERE ''"] by auto
  then have "snd (snd (CompileDelete b)) \<noteq> None"
    by (auto simp: CompileDelete_def split: prod.splits option.splits)
  then show ?thesis by (cases "CompileDelete b") (auto dest: CompileDelete_error)
qed

lemma CompileExists_refuses:
  assumes "(GetTable b = s \<and> snd (WrapTable s) \<noteq> None)
           \<or> (s \<in> set (wheresColumns (GetWheres b)) \<and> snd (Wrap s) \<noteq> None)"
  shows "snd (snd (CompileExists b)) \<noteq> None \<and> fst (CompileExists b) = []"
proof -
  have "snd (WrapTable (GetTable b)) \<noteq> None
        \<or> snd (snd (predicateSection '' WHERE '' (GetWheres b))) \<noteq> None"
    using assms predicateSection_fails [of s "GetWheres b" "'' WHERE ''"] by auto
  then have "snd (snd (CompileExists b)) \<noteq> None"
    by (auto simp: CompileExists_def split: prod.splits option.splits)
  then show ?thesis by (cases "CompileExists b") (auto dest: CompileExists_error)
qed

lemma CompileCount_refuses:
  assumes "(GetTable b = s \<and> snd (WrapTable s) \<noteq> None)
           \<or> ((column = s \<and> s \<noteq> [] \<or> s \<in> set (wheresColumns (GetWheres b)))
               \<and> snd (Wrap s) \<noteq> None)"
  shows "snd (snd (CompileCount b column)) \<noteq> None \<and> fst (CompileCount b column) = []"
proof -
  have "snd (WrapTable (GetTable b)) \<noteq> None
        \<or> (column \<noteq> [] \<and> snd (Wrap column) \<noteq> None)
        \<or> snd (snd (predicateSection '' WHERE '' (GetWheres b))) \<noteq> None"
    using assms predicateSection_fails [of s "GetWheres b" "'' WHERE ''"] by auto
  then have "snd (snd (CompileCount b column)) \<noteq> None"
    by (auto simp: CompileCount_def split: prod.splits option.splits)
  then show ?thesis by (cases "CompileCount b column") (auto dest: CompileCount_error)
qed

lemma CompileAggregate_refuses:
  assumes "(GetTable b = s \<and> snd (WrapTable s) \<noteq> None)
           \<or> ((column = s \<or> s \<in> set (wheresColumns (GetWheres b))) \<and> snd (Wrap s) \<noteq> None)"
  shows "snd (snd (CompileAggregate b fn column)) \<noteq> None \<and> fst (CompileAggregate b fn column) = []"
proof -
  have "snd (WrapTable (GetTable b)) \<noteq> None
        \<or> snd (Wrap column) \<noteq> None
        \<or> snd (snd (predicateSection '' WHERE '' (GetWheres b))) \<noteq> None"
    using assms predicateSection_fails [of s "GetWheres b" "'' WHERE ''"] by auto
  then have "snd (snd (CompileAggregate b fn column)) \<noteq> None"
    by (auto simp: CompileAggregate_def split: prod.splits option.splits)
  then show ?thesis by (cases "CompileAggregate b fn column") (auto dest: CompileAggregate_error)
qed

lemma CompileTruncate_refuses:
  assumes "GetTable b = s \<and> snd (WrapTable s) \<noteq> None"
  shows "snd (CompileTruncate b) \<noteq> None \<and> fst (CompileTruncate b) = []"
proof -
  from assms have "snd (CompileTruncate b) \<noteq> None"
    by (auto simp: CompileTruncate_def split: prod.splits option.splits)
  then show ?thesis by (cases "CompileTruncate b") (auto dest: CompileTruncate_error)
qed

lemma CompileUpsert_refuses:
  assumes "(GetTable b = s \<and> snd (WrapTable s) \<noteq> None)
           \<or> ((s \<in> set (mapKeys d) \<or> s \<in> set cols) \<and> snd (Wrap s) \<noteq> None)"
  shows "snd (snd (CompileUpsert b d cols)) \<noteq> None \<and> fst (CompileUpsert b d cols) = []"
proof -
  have "snd (snd (CompileInsert b d)) \<noteq> None
        \<or> snd (upsertPartsLoop (if length cols = 0 then sort (mapKeys d) else cols)) \<noteq> None"
  proof (cases "s \<in> set cols \<and> snd (Wrap s) \<noteq> None")
    case True
    then have "\<exists>k \<in> set cols. snd (Wrap k) \<noteq> None" by blast
    from upsertPartsLoop_fails [OF this] True show ?thesis by auto
  next
    case False
    with assms have "snd (WrapTable (GetTable b)) \<noteq> None
        \<or> (\<exists>k \<in> set (mapKeys d). snd (Wrap k) \<noteq> None)" by auto
    from CompileInsert_refused [OF this] show ?thesis by simp
  qed
  then have "snd (snd (CompileUpsert b d cols)) \<noteq> None"
    by (cases "cols = []"; cases "CompileInsert b d")
       (auto simp: CompileUpsert_def Let_def split: prod.splits option.splits)
  then show ?thesis by (cases "CompileUpsert b d cols") (auto dest: CompileUpsert_error)
qed

subsection \<open>Identifiers that are refused\<close>

lemma isIdentStart_isIdentChar: "isIdentStart c \<Longrightarrow> isIdentChar c"
  by (auto simp: isIdentStart_def isIdentChar_def)

lemma dropWhile_Cons_set:
  "dropWhile P xs = d # ds \<Longrightarrow> set xs \<subseteq> {x. P x} \<union> insert d (set ds)"
proof -
  assume h: "dropWhile P xs = d # ds"
  have "xs = takeWhile P xs @ dropWhile P xs" by simp
  then have "set xs = set (takeWhile P xs) \<union> set (dropWhile P xs)" by (metis set_append)
  moreover have "set (takeWhile P xs) \<subseteq> {x. P x}" by (auto dest: set_takeWhileD)
  ultimately show ?thesis using h by auto
qed

lemma identifierRegex_chars:
  assumes "identifierRegex s" and "c \<in> set s"
  shows "isIdentChar c \<or> c = CHR ''.''"
proof (cases s)
  case Nil
  with assms show ?thesis by simp
next
  case (Cons a cs)
  with assms have a: "isIdentStart a" by (simp add: identifierRegex_def)
  show ?thesis
  proof (cases "dropWhile isIdentChar cs")
    case Nil
    then have "\<forall>x\<in>set cs. isIdentChar x" by (simp add: dropWhile_eq_Nil_conv)
    with a Cons assms show ?thesis by (auto dest: isIdentStart_isIdentChar)
  next
    case dcons: (Cons d ds)
    with Cons assms have d: "d = CHR ''.''" by (simp add: identifierRegex_def)
    from dcons Cons assms obtain e es where ds: "ds = e # es" and e: "isIdentStart e"
      and es: "dropWhile isIdentChar es = []"
      by (cases ds) (auto simp: identifierRegex_def)
    from es have "\<forall>x\<in>set es. isIdentChar x" by (simp add: dropWhile_eq_Nil_conv)
    moreover from dropWhile_Cons_set [OF dcons] have "set cs \<subseteq> {x. isIdentChar x} \<union> insert d (set ds)" .
    ultimately show ?thesis using a d ds e Cons assms by (auto dest: isIdentStart_isIdentChar)
  qed
qed

lemma ValidateIdentifier_chars:
  "ValidateIdentifier s = None \<Longrightarrow> c \<in> set s \<Longrightarrow> isIdentChar c \<or> c = CHR ''.''"
  by (auto simp: ValidateIdentifier_def split: if_splits dest: identifierRegex_chars)

lemma ValidateIdentifier_result: "ValidateIdentifier s = Some e \<Longrightarrow> e = IdentifierError"
  by (auto simp: ValidateIdentifier_def split: if_splits)

lemma ValidateIdentifier_bad:
  "c \<in> set s \<Longrightarrow> \<not> isIdentChar c \<Longrightarrow> c \<noteq> CHR ''.'' \<Longrightarrow> ValidateIdentifier s = Some IdentifierError"
  by (cases "ValidateIdentifier s") (auto dest: ValidateIdentifier_chars ValidateIdentifier_result)

lemma stripAs_chars:
  "stripAs r2 = Some r \<Longrightarrow> c \<in> set r2 \<Longrightarrow> c \<in> set r \<or> isIdentChar c \<or> 128 \<le> (of_char c :: nat)"
  apply (cases r2 rule: stripAs.cases)
  apply (auto simp: isIdentChar_def isLower_def isUpper_def split: if_splits list.splits)
  done

lemma takeWhile_dropWhile_set: "set xs = set (takeWhile P xs) \<union> set (dropWhile P xs)"
  by (metis set_append takeWhile_dropWhile_id)

lemma aliasRegex_chars:
  assumes "aliasRegex s = Some (name, alias)" and "c \<in> set s"
  shows "isIdentChar c \<or> isReSpace c \<or> 128 \<le> (of_char c :: nat)"
proof -
  define r1 where "r1 = dropWhile isIdentChar s"
  define r2 where "r2 = dropWhile isReSpace r1"
  define r3 where "r3 = (case stripAs r2 of None \<Rightarrow> r2
        | Some r \<Rightarrow> (case r of [] \<Rightarrow> r2 | c # _ \<Rightarrow> if isReSpace c then dropWhile isReSpace r else r2))"
  have r4: "dropWhile isIdentChar r3 = []"
    unfolding r3_def r2_def r1_def using assms(1)
    by (simp add: aliasRegex_def Let_def split: if_splits)
  then have c3: "\<forall>x\<in>set r3. isIdentChar x" by (simp add: dropWhile_eq_Nil_conv)
  have c2: "\<forall>x\<in>set r2. isIdentChar x \<or> isReSpace x \<or> 128 \<le> (of_char x :: nat)"
  proof (cases "stripAs r2")
    case None
    with c3 show ?thesis by (simp add: r3_def)
  next
    case (Some r)
    show ?thesis
    proof (cases r)
      case Nil
      with Some c3 show ?thesis by (simp add: r3_def)
    next
      case (Cons y ys)
      show ?thesis
      proof (cases "isReSpace y")
        case False
        with Some Cons c3 show ?thesis by (simp add: r3_def)
      next
        case True
        with Some Cons have "r3 = dropWhile isReSpace r" by (simp add: r3_def)
        with c3 have "\<forall>x\<in>set r. isIdentChar x \<or> isReSpace x"
          using takeWhile_dropWhile_set [of r isReSpace] by (auto dest: set_takeWhileD)
        with Some show ?thesis by (auto dest: stripAs_chars)
      qed
    qed
  qed
  have c1: "\<forall>x\<in>set r1. isIdentChar x \<or> isReSpace x \<or> 128 \<le> (of_char x :: nat)"
    using c2 takeWhile_dropWhile_set [of r1 isReSpace] by (auto simp: r2_def dest: set_takeWhileD)
  show ?thesis
    using c1 assms(2) takeWhile_dropWhile_set [of s isIdentChar] by (auto simp: r1_def dest: set_takeWhileD)
qed

lemma ValidateTableWithAlias_result:
  "ValidateTableWithAlias s = (n, a, Some e) \<Longrightarrow> n = [] \<and> a = [] \<and> e = IdentifierError"
  by (auto simp: ValidateTableWithAlias_def split: if_splits option.splits prod.splits
      dest: ValidateIdentifier_result)

lemma metaChar_not_ident: "metaChar c \<Longrightarrow> \<not> isIdentChar c \<and> c \<noteq> CHR ''.''"
  by (simp add: metaChar_def)

lemma ValidateTableWithAlias_bad:
  assumes "c \<in> set s" and "metaChar c"
  shows "ValidateTableWithAlias s = ([], [], Some IdentifierError)"
proof -
  from assms have ne: "s \<noteq> []" by auto
  from assms have v: "ValidateIdentifier s = Some IdentifierError"
    by (auto intro: ValidateIdentifier_bad dest: metaChar_not_ident)
  have "aliasRegex s = None"
  proof (cases "aliasRegex s")
    case (Some p)
    then obtain n a where "aliasRegex s = Some (n, a)" by (cases p) auto
    from aliasRegex_chars [OF this assms(1)] assms(2) show ?thesis by (auto simp: metaChar_def)
  qed simp
  with ne v show ?thesis by (simp add: ValidateTableWithAlias_def)
qed

lemma Wrap_bad:
  "c \<in> set s \<Longrightarrow> \<not> isIdentChar c \<Longrightarrow> c \<noteq> CHR ''.'' \<Longrightarrow> s \<noteq> ''*'' \<Longrightarrow> Wrap s = ([], Some IdentifierError)"
  by (simp add: Wrap_def ValidateIdentifier_bad)

lemma WrapTable_bad: "c \<in> set s \<Longrightarrow> metaChar c \<Longrightarrow> WrapTable s = ([], Some IdentifierError)"
  by (simp add: WrapTable_def ValidateTableWithAlias_bad)

lemma aliasRegex_meta:
  assumes "c \<in> set s" and "metaChar c"
  shows "aliasRegex s = None"
proof (cases "aliasRegex s")
  case (Some p)
  then obtain n a where "aliasRegex s = Some (n, a)" by (cases p) auto
  from aliasRegex_chars [OF this assms(1)] assms(2) show ?thesis by (auto simp: metaChar_def)
qed simp

lemma WrapTable_no_alias:
  assumes "c \<in> set s" and "\<not> isIdentChar c" and "c \<noteq> CHR ''.''" and "aliasRegex s = None"
  shows "WrapTable s = ([], Some IdentifierError)"
proof -
  from assms(1) have "s \<noteq> []" by auto
  moreover from assms(1-3) have "ValidateIdentifier s = Some IdentifierError"
    by (rule ValidateIdentifier_bad)
  ultimately show ?thesis using assms(4) by (simp add: WrapTable_def ValidateTableWithAlias_def)
qed


text \<open>
  C1 (as amended). Let \<open>s\<close> hold a character other than an ASCII letter, digit,
  underscore or dot. Then \<open>ValidateIdentifier\<close> refuses \<open>s\<close>. Unless \<open>s\<close> is the star,
  \<open>Wrap\<close> refuses it, and every compile method returns an error and the empty SQL string
  when \<open>s\<close> is among the identifiers it hands to \<open>Wrap\<close>: a selected column without space
  or parenthesis, a column of a join, of a WHERE or HAVING predicate, of GROUP BY or of
  ORDER BY, a key of the data, a column to update of an upsert, the column of a count or
  an aggregate. Unless \<open>s\<close> has the form of a table name followed by an alias, \<open>WrapTable\<close>
  refuses it, and every compile method returns an error and the empty SQL string when \<open>s\<close>
  is the table of the builder or the table of a join. A string with an ASCII character
  that is neither a letter, a digit, an underscore, a dot nor white space (a semicolon, a
  dash, a quote, a backtick, a parenthesis, a control character) never has that form.
\<close>

theorem invalid_identifier_rejected:
  fixes b :: "('v, 'm) QueryBuilder_scheme"
  shows "((\<exists>c \<in> set s. \<not> isIdentChar c \<and> c \<noteq> CHR ''.'') \<longrightarrow>
            ValidateIdentifier s = Some IdentifierError
            \<and> (s \<noteq> ''*'' \<longrightarrow>
                 Wrap s = ([], Some IdentifierError)
                 \<and> (s \<in> set (selectIdentifiers b) \<longrightarrow>
                      snd (snd (CompileSelect b)) \<noteq> None \<and> fst (CompileSelect b) = [])
                 \<and> (s \<in> set (mapKeys data) \<longrightarrow>
                      (snd (snd (CompileInsert b data)) \<noteq> None \<and> fst (CompileInsert b data) = [])
                    \<and> (snd (snd (CompileUpdate b data)) \<noteq> None \<and> fst (CompileUpdate b data) = [])
                    \<and> (snd (snd (CompileUpsert b data updateColumns)) \<noteq> None
                         \<and> fst (CompileUpsert b data updateColumns) = []))
                 \<and> (s \<in> set (batchKeys rows) \<longrightarrow>
                      snd (snd (CompileInsertBatch b rows)) \<noteq> None
                      \<and> fst (CompileInsertBatch b rows) = [])
                 \<and> (s \<in> set updateColumns \<longrightarrow>
                      snd (snd (CompileUpsert b data updateColumns)) \<noteq> None
                      \<and> fst (CompileUpsert b data updateColumns) = [])
                 \<and> (s \<in> set (wheresColumns (GetWheres b)) \<longrightarrow>
                      (snd (snd (CompileUpdate b data)) \<noteq> None \<and> fst (CompileUpdate b data) = [])
                    \<and> (snd (snd (CompileDelete b)) \<noteq> None \<and> fst (CompileDelete b) = [])
                    \<and> (snd (snd (CompileExists b)) \<noteq> None \<and> fst (CompileExists b) = [])
                    \<and> (snd (snd (CompileCount b column)) \<noteq> None \<and> fst (CompileCount b column) = [])
                    \<and> (snd (snd (CompileAggregate b fn column)) \<noteq> None
                         \<and> fst (CompileAggregate b fn column) = []))
                 \<and> (column = s \<longrightarrow>
                      (snd (snd (CompileCount b column)) \<noteq> None \<and> fst (CompileCount b column) = [])
                    \<and> (snd (snd (CompileAggregate b fn column)) \<noteq> None
                         \<and> fst (CompileAggregate b fn column) = [])))
            \<and> (aliasRegex s = None \<longrightarrow>
                 WrapTable s = ([], Some IdentifierError)
                 \<and> (s \<in> set (selectTables b) \<longrightarrow>
                      snd (snd (CompileSelect b)) \<noteq> None \<and> fst (CompileSelect b) = [])
                 \<and> (GetTable b = s \<longrightarrow>
                      (snd (snd (CompileInsert b data)) \<noteq> None \<and> fst (CompileInsert b data) = [])
                    \<and> (snd (snd (CompileInsertBatch b rows)) \<noteq> None
                         \<and> fst (CompileInsertBatch b rows) = [])
                    \<and> (snd (snd (CompileUpdate b data)) \<noteq> None \<and> fst (CompileUpdate b data) = [])
                    \<and> (snd (snd (CompileDelete b)) \<noteq> None \<and> fst (CompileDelete b) = [])
                    \<and> (snd (snd (CompileExists b)) \<noteq> None \<and> fst (CompileExists b) = [])
                    \<and> (snd (snd (CompileCount b column)) \<noteq> None \<and> fst (CompileCount b column) = [])
                    \<and> (snd (snd (CompileAggregate b fn column)) \<noteq> None
                         \<and> fst (CompileAggregate b fn column) = [])
                    \<and> (snd (CompileTruncate b) \<noteq> None \<and> fst (CompileTruncate b) = [])
                    \<and> (snd (snd (CompileUpsert b data updateColumns)) \<noteq> None
                         \<and> fst (CompileUpsert b data updateColumns) = []))))
       \<and> ((\<exists>c \<in> set s. metaChar c) \<longrightarrow>
            (\<exists>c \<in> set s. \<not> isIdentChar c \<and> c \<noteq> CHR ''.'') \<and> aliasRegex s = None)"
proof (intro conjI impI)
  assume "\<exists>c \<in> set s. metaChar c"
  then show "\<exists>c \<in> set s. \<not> isIdentChar c \<and> c \<noteq> CHR ''.''" and "aliasRegex s = None"
    by (auto dest: metaChar_not_ident aliasRegex_meta)
next
  assume bad: "\<exists>c \<in> set s. \<not> isIdentChar c \<and> c \<noteq> CHR ''.''"
  then show "ValidateIdentifier s = Some IdentifierError" by (auto intro: ValidateIdentifier_bad)
  {
    assume "s \<noteq> ''*''"
    with bad show w: "Wrap s = ([], Some IdentifierError)" by (auto intro: Wrap_bad)
    then have r: "snd (Wrap s) \<noteq> None" by simp
    {
      assume "s \<in> set (selectIdentifiers b)"
      with r CompileSelect_refuses [of s b]
      show "snd (snd (CompileSelect b)) \<noteq> None" and "fst (CompileSelect b) = []" by simp_all
    }
    {
      assume k: "s \<in> set (mapKeys data)"
      with r CompileInsert_refused [of b data]
      show "snd (snd (CompileInsert b data)) \<noteq> None" and "fst (CompileInsert b data) = []"
        by auto
      from k r CompileUpdate_refuses [of b s data]
      show "snd (snd (CompileUpdate b data)) \<noteq> None" and "fst (CompileUpdate b data) = []"
        by simp_all
      from k r CompileUpsert_refuses [of b s data updateColumns]
      show "snd (snd (CompileUpsert b data updateColumns)) \<noteq> None"
        and "fst (CompileUpsert b data updateColumns) = []"
        by simp_all
    }
    {
      assume "s \<in> set (batchKeys rows)"
      with r CompileInsertBatch_refuses [of b s rows]
      show "snd (snd (CompileInsertBatch b rows)) \<noteq> None" and "fst (CompileInsertBatch b rows) = []"
        by simp_all
    }
    {
      assume "s \<in> set updateColumns"
      with r CompileUpsert_refuses [of b s data updateColumns]
      show "snd (snd (CompileUpsert b data updateColumns)) \<noteq> None"
        and "fst (CompileUpsert b data updateColumns) = []"
        by simp_all
    }
    {
      assume k: "s \<in> set (wheresColumns (GetWheres b))"
      with r CompileUpdate_refuses [of b s data]
      show "snd (snd (CompileUpdate b data)) \<noteq> None" and "fst (CompileUpdate b data) = []"
        by simp_all
      from k r CompileDelete_refuses [of b s]
      show "snd (snd (CompileDelete b)) \<noteq> None" and "fst (CompileDelete b) = []" by simp_all
      from k r CompileExists_refuses [of b s]
      show "snd (snd (CompileExists b)) \<noteq> None" and "fst (CompileExists b) = []" by simp_all
      from k r CompileCount_refuses [of b s column]
      show "snd (snd (CompileCount b column)) \<noteq> None" and "fst (CompileCount b column) = []"
        by simp_all
      from k r CompileAggregate_refuses [of b s column fn]
      show "snd (snd (CompileAggregate b fn column)) \<noteq> None"
        and "fst (CompileAggregate b fn column) = []"
        by simp_all
    }
    {
      assume k: "column = s"
      from bad have "s \<noteq> []" by auto
      with k r CompileCount_refuses [of b s column]
      show "snd (snd (CompileCount b column)) \<noteq> None" and "fst (CompileCount b column) = []"
        by simp_all
      from k r CompileAggregate_refuses [of b s column fn]
      show "snd (snd (CompileAggregate b fn column)) \<noteq> None"
        and "fst (CompileAggregate b fn column) = []"
        by simp_all
    }
  }
  {
    assume "aliasRegex s = None"
    with bad show w: "WrapTable s = ([], Some IdentifierError)" by (auto intro: WrapTable_no_alias)
    then have r: "snd (WrapTable s) \<noteq> None" by simp
    {
      assume "s \<in> set (selectTables b)"
      with r CompileSelect_refuses [of s b]
      show "snd (snd (CompileSelect b)) \<noteq> None" and "fst (CompileSelect b) = []" by simp_all
    }
    {
      assume k: "GetTable b = s"
      with r CompileInsert_refused [of b data]
      show "snd (snd (CompileInsert b data)) \<noteq> None" and "fst (CompileInsert b data) = []"
        by auto
      from k r CompileInsertBatch_refuses [of b s rows]
      show "snd (snd (CompileInsertBatch b rows)) \<noteq> None" and "fst (CompileInsertBatch b rows) = []"
        by simp_all
      from k r CompileUpdate_refuses [of b s data]
      show "snd (snd (CompileUpdate b data)) \<noteq> None" and "fst (CompileUpdate b data) = []"
        by simp_all
      from k r CompileDelete_refuses [of b s]
      show "snd (snd (CompileDelete b)) \<noteq> None" and "fst (CompileDelete b) = []" by simp_all
      from k r CompileExists_refuses [of b s]
      show "snd (snd (CompileExists b)) \<noteq> None" and "fst (CompileExists b) = []" by simp_all
      from k r CompileCount_refuses [of b s column]
      show "snd (snd (CompileCount b column)) \<noteq> None" and "fst (CompileCount b column) = []"
        by simp_all
      from k r CompileAggregate_refuses [of b s column fn]
      show "snd (snd (CompileAggregate b fn column)) \<noteq> None"
        and "fst (CompileAggregate b fn column) = []"
        by simp_all
      from k r CompileTruncate_refuses [of b s]
      show "snd (CompileTruncate b) \<noteq> None" and "fst (CompileTruncate b) = []" by simp_all
      from k r CompileUpsert_refuses [of b s data updateColumns]
      show "snd (snd (CompileUpsert b data updateColumns)) \<noteq> None"
        and "fst (CompileUpsert b data updateColumns) = []"
        by simp_all
    }
  }
qed

theorem invalid_identifier_rejected_witness:
  "(\<exists>c \<in> set ''id; DROP TABLE users;--''. \<not> isIdentChar c \<and> c \<noteq> CHR ''.'')
   \<and> ''id; DROP TABLE users;--'' \<noteq> ''*''
   \<and> ValidateIdentifier ''id; DROP TABLE users;--'' = Some IdentifierError
   \<and> Wrap ''id; DROP TABLE users;--'' = ([], Some IdentifierError)
   \<and> ''id; DROP TABLE users;--''
       \<in> set (selectIdentifiers ((mockBuilder ''users'')
            \<lparr>GetWheres := [basicClause WhereBooleanAnd ''id; DROP TABLE users;--'' ''='' (Some ())]\<rparr>))
   \<and> fst (CompileSelect ((mockBuilder ''users'')
            \<lparr>GetWheres := [basicClause WhereBooleanAnd ''id; DROP TABLE users;--'' ''='' (Some ())]\<rparr>)) = []
   \<and> snd (snd (CompileSelect ((mockBuilder ''users'')
            \<lparr>GetWheres := [basicClause WhereBooleanAnd ''id; DROP TABLE users;--'' ''='' (Some ())]\<rparr>)))
       \<noteq> None
   \<and> ''id; DROP TABLE users;--''
       \<in> set (selectIdentifiers ((mockBuilder ''users'' :: unit QueryBuilder)
            \<lparr>GetGroupBy := [''id; DROP TABLE users;--'']\<rparr>))
   \<and> fst (CompileSelect ((mockBuilder ''users'' :: unit QueryBuilder)
            \<lparr>GetGroupBy := [''id; DROP TABLE users;--'']\<rparr>)) = []
   \<and> snd (snd (CompileSelect ((mockBuilder ''users'' :: unit QueryBuilder)
            \<lparr>GetGroupBy := [''id; DROP TABLE users;--'']\<rparr>))) \<noteq> None
   \<and> ''id; DROP TABLE users;--''
       \<in> set (selectIdentifiers ((mockBuilder ''users'' :: unit QueryBuilder)
            \<lparr>GetOrders := [\<lparr>oColumn = ''id; DROP TABLE users;--'', oDirection = ''ASC'', oRaw = []\<rparr>]\<rparr>))
   \<and> fst (CompileSelect ((mockBuilder ''users'' :: unit QueryBuilder)
            \<lparr>GetOrders := [\<lparr>oColumn = ''id; DROP TABLE users;--'', oDirection = ''ASC'', oRaw = []\<rparr>]\<rparr>))
       = []
   \<and> snd (snd (CompileSelect ((mockBuilder ''users'' :: unit QueryBuilder)
            \<lparr>GetOrders := [\<lparr>oColumn = ''id; DROP TABLE users;--'', oDirection = ''ASC'', oRaw = []\<rparr>]\<rparr>)))
       \<noteq> None
   \<and> fst (CompileCount (mockBuilder ''users'' :: unit QueryBuilder) ''id; DROP TABLE users;--'') = []
   \<and> snd (snd (CompileCount (mockBuilder ''users'' :: unit QueryBuilder) ''id; DROP TABLE users;--''))
       \<noteq> None
   \<and> (\<exists>c \<in> set ''users UNION SELECT password FROM admin''. \<not> isIdentChar c \<and> c \<noteq> CHR ''.'')
   \<and> aliasRegex ''users UNION SELECT password FROM admin'' = None
   \<and> WrapTable ''users UNION SELECT password FROM admin'' = ([], Some IdentifierError)
   \<and> fst (CompileSelect (mockBuilder ''users UNION SELECT password FROM admin'' :: unit QueryBuilder)) = []
   \<and> snd (snd (CompileSelect (mockBuilder ''users UNION SELECT password FROM admin'' :: unit QueryBuilder)))
       \<noteq> None
   \<and> fst (CompileDelete (mockBuilder ''users UNION SELECT password FROM admin'' :: unit QueryBuilder)) = []
   \<and> snd (snd (CompileDelete (mockBuilder ''users UNION SELECT password FROM admin'' :: unit QueryBuilder)))
       \<noteq> None
   \<and> (\<exists>c \<in> set ''users;DROP''. metaChar c)
   \<and> aliasRegex ''users;DROP'' = None"
proof -
  let ?s = "''id; DROP TABLE users;--''"
  let ?t = "''users UNION SELECT password FROM admin''"
  let ?u = "mockBuilder ''users'' :: unit QueryBuilder"
  let ?bw = "?u \<lparr>GetWheres := [basicClause WhereBooleanAnd ?s ''='' (Some ())]\<rparr>"
  let ?bg = "?u \<lparr>GetGroupBy := [?s]\<rparr>"
  let ?bo = "?u \<lparr>GetOrders := [\<lparr>oColumn = ?s, oDirection = ''ASC'', oRaw = []\<rparr>]\<rparr>"
  let ?bt = "mockBuilder ?t :: unit QueryBuilder"
  have sp: "\<not> isIdentChar (CHR '' '') \<and> CHR '' '' \<noteq> CHR ''.''"
    by (simp add: isIdentChar_def isLower_def isUpper_def isDigit_def)
  then have h1: "\<exists>c \<in> set ?s. \<not> isIdentChar c \<and> c \<noteq> CHR ''.''" by simp
  from sp have h2: "\<exists>c \<in> set ?t. \<not> isIdentChar c \<and> c \<noteq> CHR ''.''" by simp
  have h3: "?s \<noteq> ''*''" by simp
  have h4: "?s \<in> set (selectIdentifiers ?bw)"
    by (simp add: selectIdentifiers_def wheresColumns_def mockBuilder_def basicClause_def)
  have h5: "?s \<in> set (selectIdentifiers ?bg)"
    by (simp add: selectIdentifiers_def wheresColumns_def mockBuilder_def)
  have h6: "?s \<in> set (selectIdentifiers ?bo)"
    by (simp add: selectIdentifiers_def wheresColumns_def mockBuilder_def orderColumns_def)
  have h7: "aliasRegex ?t = None" by code_simp
  have h8: "?t \<in> set (selectTables ?bt)" "GetTable ?bt = ?t"
    by (simp_all add: selectTables_def mockBuilder_def)
  have m: "metaChar (CHR '';'')"
    by (simp add: metaChar_def isIdentChar_def isLower_def isUpper_def isDigit_def isReSpace_def)
  then have h9: "\<exists>c \<in> set ''users;DROP''. metaChar c" by simp
  note w = invalid_identifier_rejected [where s = ?s and b = ?bw
      and data = "[]" and rows = "[]" and column = ?s and fn = "[]" and updateColumns = "[]"]
  note g = invalid_identifier_rejected [where s = ?s and b = ?bg
      and data = "[]" and rows = "[]" and column = ?s and fn = "[]" and updateColumns = "[]"]
  note o = invalid_identifier_rejected [where s = ?s and b = ?bo
      and data = "[]" and rows = "[]" and column = ?s and fn = "[]" and updateColumns = "[]"]
  note c = invalid_identifier_rejected [where s = ?s and b = ?u
      and data = "[]" and rows = "[]" and column = ?s and fn = "[]" and updateColumns = "[]"]
  note t = invalid_identifier_rejected [where s = ?t and b = ?bt
      and data = "[]" and rows = "[]" and column = "[]" and fn = "[]" and updateColumns = "[]"]
  note d = invalid_identifier_rejected [where s = "''users;DROP''" and b = ?u
      and data = "[]" and rows = "[]" and column = "[]" and fn = "[]" and updateColumns = "[]"]
  from w h1 h3 h4
  have c1: "ValidateIdentifier ?s = Some IdentifierError" "Wrap ?s = ([], Some IdentifierError)"
    "fst (CompileSelect ?bw) = []" "snd (snd (CompileSelect ?bw)) \<noteq> None"
    by blast+
  from g h1 h3 h5
  have c2: "fst (CompileSelect ?bg) = []" "snd (snd (CompileSelect ?bg)) \<noteq> None"
    by blast+
  from o h1 h3 h6
  have c3: "fst (CompileSelect ?bo) = []" "snd (snd (CompileSelect ?bo)) \<noteq> None"
    by blast+
  from c h1 h3
  have c4: "fst (CompileCount ?u ?s) = []" "snd (snd (CompileCount ?u ?s)) \<noteq> None"
    by blast+
  from t h2 h7 h8
  have c5: "WrapTable ?t = ([], Some IdentifierError)"
    "fst (CompileSelect ?bt) = []" "snd (snd (CompileSelect ?bt)) \<noteq> None"
    "fst (CompileDelete ?bt) = []" "snd (snd (CompileDelete ?bt)) \<noteq> None"
    by blast+
  from d h9 have c6: "aliasRegex ''users;DROP'' = None" by blast
  from h1 h2 h3 h4 h5 h6 h7 h9 c1 c2 c3 c4 c5 c6 show ?thesis by blast
qed

text \<open>
  The claim as written fails for keywords: \<open>UNION\<close> matches the identifier pattern, so it
  is accepted and emitted between backticks; and a table name followed by a second word
  is a table with an alias, so \<open>users UNION\<close> is accepted as table \<open>users\<close> with the
  alias \<open>UNION\<close>.
\<close>

theorem keyword_identifier_accepted:
  "ValidateIdentifier ''UNION'' = None
   \<and> Wrap ''UNION'' = (''`UNION`'', None)
   \<and> WrapTable ''UNION'' = (''`UNION`'', None)
   \<and> CompileTruncate (mockBuilder ''UNION'' :: unit QueryBuilder) = (''TRUNCATE TABLE `UNION`'', None)
   \<and> WrapTable ''users UNION'' = (''`users` AS `UNION`'', None)"
  by code_simp

text \<open>
  A selected column with a space or a parenthesis is not handed to \<open>Wrap\<close>:
  \<open>CompileSelect\<close> emits it as it is, where the repository's test
  \<open>TestSQLInjection_ColumnSelection\<close> expects an error. The property above says nothing
  about such columns.
\<close>

lemma select_raw_column_verbatim:
  "CompileSelect ((mockBuilder ''users'' :: unit QueryBuilder)
       \<lparr>GetColumns := [''id; DROP TABLE users;--'']\<rparr>)
     = (''SELECT id; DROP TABLE users;-- FROM `users`'', [], None)"
  by code_simp
subsection \<open>Connectors of a predicate list\<close>

lemma compileWheresLoop_ok:
  "\<forall>w \<in> set ws. compiles w \<Longrightarrow>
   compileWheresLoop i ws sql args =
     (sql @ (if i = 0 then specPredicateList ws else concat (map connectorAndClause ws)),
      args @ concat (map clauseArgs ws), None)"
proof (induction ws arbitrary: i sql args)
  case Nil
  show ?case by simp
next
  case (Cons w ws)
  obtain s a where w: "compileWhere w = (s, a, None)"
    using Cons.prems by (cases "compileWhere w") (auto simp: compiles_def)
  from Cons.prems have "\<forall>x \<in> set ws. compiles x" by simp
  from Cons.IH [OF this] w show ?case
    by (simp add: connectorAndClause_def clauseArgs_def)
qed

lemma compileWheres_ok:
  "\<forall>w \<in> set ws. compiles w \<Longrightarrow>
   compileWheres ws = (specPredicateList ws, concat (map clauseArgs ws), None)"
  by (cases ws) (simp_all add: compileWheres.simps compileWheresLoop_ok del: compileWheresLoop.simps)

lemma compileWhere_connector:
  "compileWhere (WhereClause t c col op v vs n r bs) = compileWhere (WhereClause t c' col op v vs n r bs)"
  by (cases t)
     (simp_all add: compileWhere.simps compileWhereNested.simps compileWhereBasic_def
        compileWhereIn_def compileWhereBetween_def compileWhereNull_def compileWhereDate_def
        split: prod.splits option.splits)

lemma compileWheres_head_connector:
  "compileWheres (WhereClause t c col op v vs n r bs # ws)
     = compileWheres (WhereClause t c' col op v vs n r bs # ws)"
  using compileWhere_connector [of t c col op v vs n r bs c']
  by (simp add: compileWheres.simps)

lemma compileWhere_nested:
  "Type w = WhereTypeNested \<Longrightarrow> Nested w \<noteq> [] \<Longrightarrow> compileWheres (Nested w) = (s, a, None) \<Longrightarrow>
   compileWhere w = (''('' @ s @ '')'', a, None)"
  by (simp add: compileWhere.simps compileWhereNested.simps)

lemma compileWhere_nested_error:
  "Type w = WhereTypeNested \<Longrightarrow> Nested w \<noteq> [] \<Longrightarrow> compileWheres (Nested w) = (s, a, Some e) \<Longrightarrow>
   compileWhere w = ([], [], Some e)"
  by (simp add: compileWhere.simps compileWhereNested.simps)

lemma compileWhere_empty_nested:
  "Type w = WhereTypeNested \<Longrightarrow> Nested w = [] \<Longrightarrow> compileWhere w = ([], [], None)"
  by (simp add: compileWhere.simps compileWhereNested.simps)

lemma compileWhere_raw: "Type w = WhereTypeRaw \<Longrightarrow> compileWhere w = (Raw w, Bindings w, None)"
  by (simp add: compileWhere.simps)

lemma Wrap_examples:
  "Wrap ''a'' = (''`a`'', None)" "Wrap ''b'' = (''`b`'', None)" "Wrap ''c'' = (''`c`'', None)"
  by code_simp+

lemma operator_eq_example: "ValidateOperator ''='' = None" "upperByte (CHR ''='') = CHR ''=''"
  by code_simp+

text \<open>
  C5. A predicate list compiles when each of its predicates does, and then to the text
  of predicate 0 followed, for each later predicate, by that predicate's own connector
  between spaces and its text; the connector of predicate 0 never matters. A Nested
  predicate with children is the text of its children, compiled by the same rule, between
  parentheses. The list [A (AND), Nested [B (AND), C (OR)] (AND)] compiles to
  A AND (B OR C).
\<close>

theorem predicate_connectors:
  fixes ws :: "'v WhereClause list"
  shows "((\<forall>w \<in> set ws. compiles w) \<longrightarrow>
            compileWheres ws = (specPredicateList ws, concat (map clauseArgs ws), None))
       \<and> ((\<exists>w \<in> set ws. \<not> compiles w) \<longrightarrow> (\<exists>e. compileWheres ws = ([], [], Some e)))
       \<and> compileWheres (WhereClause t c col op v vs n r bs # ws)
            = compileWheres (WhereClause t c' col op v vs n r bs # ws)
       \<and> (Type x = WhereTypeNested \<and> Nested x \<noteq> [] \<and> (\<forall>w \<in> set (Nested x). compiles w) \<longrightarrow>
            compileWhere x = (''('' @ specPredicateList (Nested x) @ '')'',
                              concat (map clauseArgs (Nested x)), None))
       \<and> compileWheres
            [basicClause WhereBooleanAnd ''a'' ''='' va,
             nestedClause WhereBooleanAnd
               [basicClause WhereBooleanAnd ''b'' ''='' vb, basicClause WhereBooleanOr ''c'' ''='' vc]]
          = (''`a` = ? AND (`b` = ? OR `c` = ?)'', [va, vb, vc], None)"
proof (intro conjI impI)
  assume "\<forall>w \<in> set ws. compiles w"
  then show "compileWheres ws = (specPredicateList ws, concat (map clauseArgs ws), None)"
    by (rule compileWheres_ok)
next
  assume "\<exists>w \<in> set ws. \<not> compiles w"
  then show "\<exists>e. compileWheres ws = ([], [], Some e)" by (rule compileWheres_fails)
next
  show "compileWheres (WhereClause t c col op v vs n r bs # ws)
            = compileWheres (WhereClause t c' col op v vs n r bs # ws)"
    by (rule compileWheres_head_connector)
next
  assume h: "Type x = WhereTypeNested \<and> Nested x \<noteq> [] \<and> (\<forall>w \<in> set (Nested x). compiles w)"
  then have "compileWheres (Nested x)
      = (specPredicateList (Nested x), concat (map clauseArgs (Nested x)), None)"
    by (simp add: compileWheres_ok)
  with h show "compileWhere x = (''('' @ specPredicateList (Nested x) @ '')'',
                              concat (map clauseArgs (Nested x)), None)"
    by (simp add: compileWhere_nested)
next
  show "compileWheres
            [basicClause WhereBooleanAnd ''a'' ''='' va,
             nestedClause WhereBooleanAnd
               [basicClause WhereBooleanAnd ''b'' ''='' vb, basicClause WhereBooleanOr ''c'' ''='' vc]]
          = (''`a` = ? AND (`b` = ? OR `c` = ?)'', [va, vb, vc], None)"
    by (simp add: compileWheres.simps compileWhere.simps compileWhereNested.simps
        basicClause_def nestedClause_def compileWhereBasic_def Wrap_examples operator_eq_example)
qed


theorem predicate_connectors_witness:
  "compiles (basicClause WhereBooleanOr ''a'' ''='' (None :: unit any))
   \<and> compiles (nestedClause WhereBooleanOr
         [basicClause WhereBooleanAnd ''b'' ''<'' (None :: unit any),
          basicClause WhereBooleanOr ''c'' ''like'' None])
   \<and> compileWheres [basicClause WhereBooleanOr ''a'' ''='' (None :: unit any),
                   nestedClause WhereBooleanOr
                     [basicClause WhereBooleanAnd ''b'' ''<'' None, basicClause WhereBooleanOr ''c'' ''like'' None]]
       = (''`a` = ? OR (`b` < ? OR `c` LIKE ?)'', [None, None, None], None)
   \<and> (\<exists>w \<in> set [basicClause WhereBooleanAnd ''a b'' ''='' (None :: unit any)]. \<not> compiles w)
   \<and> (\<exists>e. compileWheres [basicClause WhereBooleanAnd ''a b'' ''='' (None :: unit any)] = ([], [], Some e))"
proof -
  let ?ws = "[basicClause WhereBooleanOr ''a'' ''='' (None :: unit any),
              nestedClause WhereBooleanOr
                [basicClause WhereBooleanAnd ''b'' ''<'' None, basicClause WhereBooleanOr ''c'' ''like'' None]]"
  let ?bad = "[basicClause WhereBooleanAnd ''a b'' ''='' (None :: unit any)]"
  have h1: "\<forall>w \<in> set ?ws. compiles w" by code_simp
  have h2: "\<exists>w \<in> set ?bad. \<not> compiles w" by code_simp
  have e1: "(specPredicateList ?ws, concat (map clauseArgs ?ws), None :: error option)
      = (''`a` = ? OR (`b` < ? OR `c` LIKE ?)'', [None, None, None], None)" by code_simp
  have c1: "compileWheres ?ws = (specPredicateList ?ws, concat (map clauseArgs ?ws), None)"
    by (rule predicate_connectors [THEN conjunct1, THEN mp]) (rule h1)
  have c2: "\<exists>e. compileWheres ?bad = ([], [], Some e)"
    by (rule predicate_connectors [THEN conjunct2, THEN conjunct1, THEN mp]) (rule h2)
  from h1 h2 c1 c2 e1 show ?thesis by simp
qed

subsection \<open>An empty group leaves its connector behind\<close>

text \<open>
  C10 (as amended). When a predicate list holds, after at least one other predicate, a
  Nested predicate without children or a Raw predicate with empty text, and every other
  predicate of the list compiles, the list compiles without error and its text has that
  entry's connector followed by an empty clause: with nothing after the entry the text
  ends in the connector, as in \<open>`a` = ? AND \<close>.
\<close>

theorem empty_clause_dangling_connector:
  fixes pre :: "'v WhereClause list"
  shows "(pre \<noteq> []
          \<and> ((Type e = WhereTypeNested \<and> Nested e = []) \<or> (Type e = WhereTypeRaw \<and> Raw e = []))
          \<and> (\<forall>w \<in> set pre \<union> set post. compiles w) \<longrightarrow>
            compileWhere e = ([], clauseArgs e, None)
            \<and> compileWheres (pre @ e # post)
                = (specPredicateList pre @ '' '' @ WhereBoolean_String (Boolean e) @ '' ''
                     @ concat (map connectorAndClause post),
                   concat (map clauseArgs (pre @ e # post)), None))
       \<and> compileWheres [basicClause WhereBooleanAnd ''a'' ''='' v, nestedClause WhereBooleanAnd []]
           = (''`a` = ? AND '', [v], None)
       \<and> compileWheres [basicClause WhereBooleanAnd ''a'' ''='' v, rawClause WhereBooleanOr [] []]
           = (''`a` = ? OR '', [v], None)"
proof (intro conjI impI)
  assume h: "pre \<noteq> []
          \<and> ((Type e = WhereTypeNested \<and> Nested e = []) \<or> (Type e = WhereTypeRaw \<and> Raw e = []))
          \<and> (\<forall>w \<in> set pre \<union> set post. compiles w)"
  then have e: "compileWhere e = ([], clauseArgs e, None)"
    by (auto simp: clauseArgs_def compileWhere_empty_nested compileWhere_raw)
  then show "compileWhere e = ([], clauseArgs e, None)" .
  from e have ce: "compiles e" by (simp add: compiles_def)
  from e have te: "connectorAndClause e = '' '' @ WhereBoolean_String (Boolean e) @ '' ''"
    by (simp add: connectorAndClause_def)
  from h obtain p ps where pre: "pre = p # ps" by (cases pre) auto
  from h ce have "\<forall>w \<in> set (pre @ e # post). compiles w" by auto
  then have "compileWheres (pre @ e # post)
      = (specPredicateList (pre @ e # post), concat (map clauseArgs (pre @ e # post)), None)"
    by (rule compileWheres_ok)
  moreover have "specPredicateList (pre @ e # post)
      = specPredicateList pre @ '' '' @ WhereBoolean_String (Boolean e) @ '' ''
          @ concat (map connectorAndClause post)"
    using te by (simp add: pre)
  ultimately show "compileWheres (pre @ e # post)
                = (specPredicateList pre @ '' '' @ WhereBoolean_String (Boolean e) @ '' ''
                     @ concat (map connectorAndClause post),
                   concat (map clauseArgs (pre @ e # post)), None)"
    by simp
next
  show "compileWheres [basicClause WhereBooleanAnd ''a'' ''='' v, nestedClause WhereBooleanAnd []]
           = (''`a` = ? AND '', [v], None)"
    by (simp add: compileWheres.simps compileWhere.simps compileWhereNested.simps
        basicClause_def nestedClause_def compileWhereBasic_def Wrap_examples operator_eq_example)
next
  show "compileWheres [basicClause WhereBooleanAnd ''a'' ''='' v, rawClause WhereBooleanOr [] []]
           = (''`a` = ? OR '', [v], None)"
    by (simp add: compileWheres.simps compileWhere.simps compileWhereNested.simps
        basicClause_def rawClause_def compileWhereBasic_def Wrap_examples operator_eq_example)
qed

theorem empty_clause_dangling_connector_witness:
  "[basicClause WhereBooleanAnd ''a'' ''='' (None :: unit any)] \<noteq> []
   \<and> Type (nestedClause WhereBooleanOr [] :: unit WhereClause) = WhereTypeNested
   \<and> Nested (nestedClause WhereBooleanOr [] :: unit WhereClause) = []
   \<and> compiles (basicClause WhereBooleanAnd ''a'' ''='' (None :: unit any))
   \<and> compiles (basicClause WhereBooleanAnd ''b'' ''='' (None :: unit any))
   \<and> compileWheres ([basicClause WhereBooleanAnd ''a'' ''='' (None :: unit any)]
                     @ nestedClause WhereBooleanOr [] # [basicClause WhereBooleanAnd ''b'' ''='' None])
       = (''`a` = ? OR  AND `b` = ?'', [None, None], None)"
proof -
  let ?pre = "[basicClause WhereBooleanAnd ''a'' ''='' (None :: unit any)]"
  let ?e = "nestedClause WhereBooleanOr [] :: unit WhereClause"
  let ?post = "[basicClause WhereBooleanAnd ''b'' ''='' (None :: unit any)]"
  have h1: "?pre \<noteq> []" by simp
  have h2: "Type ?e = WhereTypeNested \<and> Nested ?e = []" by (simp add: nestedClause_def)
  have h3: "\<forall>w \<in> set ?pre \<union> set ?post. compiles w" by code_simp
  have e1: "(specPredicateList ?pre @ '' '' @ WhereBoolean_String (Boolean ?e) @ '' ''
                     @ concat (map connectorAndClause ?post),
                   concat (map clauseArgs (?pre @ ?e # ?post)), None :: error option)
      = (''`a` = ? OR  AND `b` = ?'', [None, None], None)" by code_simp
  have "compileWheres (?pre @ ?e # ?post)
        = (specPredicateList ?pre @ '' '' @ WhereBoolean_String (Boolean ?e) @ '' ''
                     @ concat (map connectorAndClause ?post),
                   concat (map clauseArgs (?pre @ ?e # ?post)), None)"
    using empty_clause_dangling_connector [THEN conjunct1, THEN mp, THEN conjunct2, of ?pre ?e ?post]
      h1 h2 h3 by blast
  with e1 h1 h2 h3 show ?thesis by simp
qed

text \<open>
  The claim as written promises success whatever the other predicates are; a predicate
  that does not compile still makes the list fail.
\<close>

theorem empty_clause_other_predicate_fails:
  "compileWheres [basicClause WhereBooleanAnd ''bad column'' ''='' (None :: unit any),
                  nestedClause WhereBooleanAnd []]
     = ([], [], Some IdentifierError)"
  by code_simp

subsection \<open>Placeholders and arguments\<close>

lemma countPlaceholders_append [simp]:
  "countPlaceholders (a @ b) = countPlaceholders a + countPlaceholders b"
  by (simp add: countPlaceholders_def)

lemma countPlaceholders_Nil [simp]: "countPlaceholders [] = 0"
  by (simp add: countPlaceholders_def)

lemma countPlaceholders_free: "placeholderFree s \<Longrightarrow> countPlaceholders s = 0"
  by (simp add: placeholderFree_def countPlaceholders_def count_list_0_iff)

lemma placeholderFree_append [simp]:
  "placeholderFree (a @ b) = (placeholderFree a \<and> placeholderFree b)"
  by (auto simp: placeholderFree_def)

lemma placeholderFree_Cons [simp]:
  "placeholderFree (c # s) = (c \<noteq> CHR ''?'' \<and> placeholderFree s)"
  by (auto simp: placeholderFree_def)

lemma placeholderFree_Nil [simp]: "placeholderFree []"
  by (simp add: placeholderFree_def)

lemma placeholderFree_join:
  "placeholderFree sep \<Longrightarrow> \<forall>p \<in> set parts. placeholderFree p \<Longrightarrow> placeholderFree (join sep parts)"
  by (induction sep parts rule: join.induct) auto

lemma countPlaceholders_join:
  "placeholderFree sep \<Longrightarrow>
   countPlaceholders (join sep parts) = sum_list (map countPlaceholders parts)"
  by (induction sep parts rule: join.induct) (auto simp: countPlaceholders_free)

lemma split_chars_all: "\<forall>p \<in> set (split sep s). set p \<subseteq> set s"
proof (induction s)
  case Nil
  show ?case by simp
next
  case (Cons c cs)
  show ?case
  proof (cases "split sep cs")
    case Nil
    then show ?thesis by simp
  next
    case (Cons q qs)
    with Cons.IH have "set q \<subseteq> set cs" and "\<forall>p \<in> set qs. set p \<subseteq> set cs" by auto
    with Cons show ?thesis using Cons.IH by auto
  qed
qed

lemma split_chars: "p \<in> set (split sep s) \<Longrightarrow> set p \<subseteq> set s"
  using split_chars_all by blast

lemma not_ident_question: "\<not> isIdentChar (CHR ''?'')"
  by (simp add: isIdentChar_def isLower_def isUpper_def isDigit_def)

lemma ValidateIdentifier_free: "ValidateIdentifier s = None \<Longrightarrow> placeholderFree s"
  using not_ident_question by (auto simp: placeholderFree_def dest: ValidateIdentifier_chars)

lemma Wrap_free: "Wrap s = (w, None) \<Longrightarrow> placeholderFree w"
proof -
  assume h: "Wrap s = (w, None)"
  show ?thesis
  proof (cases "s = ''*''")
    case True
    with h have "w = ''*''" by (simp add: Wrap_def)
    then show ?thesis by simp
  next
    case False
    with h have v: "ValidateIdentifier s = None"
      by (auto simp: Wrap_def split: option.splits)
    then have f: "placeholderFree s" by (rule ValidateIdentifier_free)
    then have "\<forall>p \<in> set (split (CHR ''.'') s). placeholderFree p"
      by (auto simp: placeholderFree_def dest: split_chars)
    then have "placeholderFree (join ''.'' (map (\<lambda>part. ''`'' @ part @ ''`'') (split (CHR ''.'') s)))"
      by (intro placeholderFree_join) auto
    with h v f False show ?thesis by (auto simp: Wrap_def split: if_splits)
  qed
qed

lemma ValidateTableWithAlias_free:
  "ValidateTableWithAlias t = (name, alias, None) \<Longrightarrow> placeholderFree name \<and> placeholderFree alias"
  by (auto simp: ValidateTableWithAlias_def split: if_splits option.splits prod.splits
      dest: ValidateIdentifier_free)

lemma WrapTable_free: "WrapTable t = (w, None) \<Longrightarrow> placeholderFree w"
  by (auto simp: WrapTable_def Let_def split: prod.splits option.splits if_splits
      dest: ValidateTableWithAlias_free)


lemma unicodeSpaces_free: "q \<in> set unicodeSpaces \<Longrightarrow> CHR ''?'' \<notin> set q"
  by (auto simp: unicodeSpaces_def)

lemma trimLeft_keeps: "CHR ''?'' \<in> set s \<Longrightarrow> CHR ''?'' \<in> set (trimLeft s)"
proof (induction s rule: trimLeft.induct)
  case (1 s)
  show ?case
  proof (cases "leadingSpace s")
    case None
    with "1.prems" show ?thesis by (simp add: trimLeft.simps)
  next
    case (Some q)
    then have q: "q \<in> set unicodeSpaces" and t: "take (length q) s = q"
      by (auto simp: leadingSpace_def find_Some_iff)
    have "set s = set (take (length q) s) \<union> set (drop (length q) s)"
      by (metis append_take_drop_id set_append)
    with "1.prems" t unicodeSpaces_free [OF q] have "CHR ''?'' \<in> set (drop (length q) s)" by auto
    with "1.IH" Some have "CHR ''?'' \<in> set (trimLeft (drop (length q) s))" by simp
    with Some show ?thesis by (subst trimLeft.simps) simp
  qed
qed

lemma trimRight_keeps: "CHR ''?'' \<in> set s \<Longrightarrow> CHR ''?'' \<in> set (trimRight s)"
proof (induction s rule: trimRight.induct)
  case (1 s)
  show ?case
  proof (cases "trailingSpace s")
    case None
    with "1.prems" show ?thesis by (simp add: trimRight.simps)
  next
    case (Some q)
    then have q: "q \<in> set unicodeSpaces" and t: "drop (length s - length q) s = q"
      by (auto simp: trailingSpace_def find_Some_iff)
    have "set s = set (take (length s - length q) s) \<union> set (drop (length s - length q) s)"
      by (metis append_take_drop_id set_append)
    with "1.prems" t unicodeSpaces_free [OF q]
    have "CHR ''?'' \<in> set (take (length s - length q) s)" by auto
    with "1.IH" Some have "CHR ''?'' \<in> set (trimRight (take (length s - length q) s))" by simp
    with Some show ?thesis by (subst trimRight.simps) simp
  qed
qed

lemma trimSpace_keeps: "CHR ''?'' \<in> set s \<Longrightarrow> CHR ''?'' \<in> set (trimSpace s)"
  by (simp add: trimSpace_def trimLeft_keeps trimRight_keeps)

lemma trimSpace_example:
  "trimSpace [CHR 0x20, CHR 0xC2, CHR 0xA0, CHR ''='', CHR 0xE2, CHR 0x80, CHR 0x83, CHR 0x20, CHR 0xC2, CHR 0x85] = ''=''"
  by code_simp

lemma upperByte_question: "(upperByte c = CHR ''?'') = (c = CHR ''?'')"
proof (cases "isLower c")
  case False
  then show ?thesis by (simp add: upperByte_def)
next
  case True
  then have n: "97 \<le> (of_char c :: nat)" "(of_char c :: nat) \<le> 122" by (simp_all add: isLower_def)
  have c: "c \<noteq> CHR ''?''" using n by auto
  have "(of_char (char_of (of_char c - (32::nat))) :: nat) = (of_char c - 32) mod 256"
    by (simp add: of_char_of)
  also have "\<dots> = of_char c - 32" using n by simp
  finally have ne: "(of_char (char_of (of_char c - (32::nat))) :: nat) \<noteq> 63" using n by simp
  have "char_of (of_char c - (32::nat)) \<noteq> CHR ''?''"
  proof
    assume "char_of (of_char c - (32::nat)) = CHR ''?''"
    then have "(of_char (char_of (of_char c - (32::nat))) :: nat) = of_char (CHR ''?'')" by simp
    with ne show False by simp
  qed
  with True c show ?thesis by (simp add: upperByte_def)
qed

lemma upperByte_question': "(CHR ''?'' = upperByte c) = (c = CHR ''?'')"
  using upperByte_question [of c] by auto

lemma toUpper_question: "(CHR ''?'' \<in> set (toUpper s)) = (CHR ''?'' \<in> set s)"
proof (induction s rule: toUpper.induct)
  case 1
  show ?case by simp
next
  case (2 c)
  show ?case by (auto simp: upperByte_question upperByte_question')
next
  case (3 c d cs)
  show ?case
  proof (cases "c = CHR 0xC4 \<and> d = CHR 0xB1")
    case True
    with 3 show ?thesis by simp
  next
    case n1: False
    show ?thesis
    proof (cases "c = CHR 0xC5 \<and> d = CHR 0xBF")
      case True
      with n1 3 show ?thesis by simp
    next
      case False
      with n1 3 have "(CHR ''?'' \<in> set (toUpper (d # cs))) = (CHR ''?'' \<in> set (d # cs))" by simp
      moreover from n1 False have "toUpper (c # d # cs) = upperByte c # toUpper (d # cs)" by auto
      ultimately show ?thesis by (auto simp: upperByte_question upperByte_question')
    qed
  qed
qed

lemma allowedOperators_free: "x \<in> set allowedOperators \<Longrightarrow> placeholderFree x"
  by (auto simp: allowedOperators_def)

lemma ValidateOperator_free:
  assumes "ValidateOperator op = None"
  shows "placeholderFree op \<and> placeholderFree (toUpper op)"
proof -
  from assms have "toUpper (trimSpace op) \<in> set allowedOperators"
    by (simp add: ValidateOperator_def Let_def split: if_splits)
  then have "CHR ''?'' \<notin> set (toUpper (trimSpace op))"
    using allowedOperators_free by (auto simp: placeholderFree_def)
  then have "CHR ''?'' \<notin> set op" using trimSpace_keeps by (auto simp: toUpper_question)
  then show ?thesis by (simp add: placeholderFree_def toUpper_question)
qed

lemma showNat_free: "placeholderFree (showNat n)"
proof (induction n rule: showNat.induct)
  case (1 n)
  have d: "char_of (48 + k) \<noteq> CHR ''?''" if k: "k < 10" for k :: nat
  proof
    assume e: "char_of (48 + k) = CHR ''?''"
    have "(of_char (char_of (48 + k)) :: nat) = (48 + k) mod 256" by (simp add: of_char_of)
    with k have "(of_char (char_of (48 + k)) :: nat) = 48 + k" by simp
    with e k show False by simp
  qed
  show ?case
  proof (cases "n < 10")
    case True
    with d show ?thesis by (subst showNat.simps) simp
  next
    case False
    have "n mod 10 < 10" by simp
    with d have "char_of (48 + n mod 10) \<noteq> CHR ''?''" by blast
    with False "1.IH" show ?thesis by (subst showNat.simps) simp
  qed
qed

lemma showInt_free: "placeholderFree (showInt n)"
  by (simp add: showInt_def showNat_free)

lemma limitSection_free: "placeholderFree k \<Longrightarrow> placeholderFree (limitSection k l)"
  by (cases l) (simp_all add: limitSection_def showInt_free)

lemma WhereBoolean_String_free: "placeholderFree (WhereBoolean_String b)"
  by simp


lemma countPlaceholders_question [simp]: "countPlaceholders (CHR ''?'' # s) = Suc (countPlaceholders s)"
  by (simp add: countPlaceholders_def)

lemma countPlaceholders_other [simp]: "c \<noteq> CHR ''?'' \<Longrightarrow> countPlaceholders (c # s) = countPlaceholders s"
  by (simp add: countPlaceholders_def)

lemma countPlaceholders_marks:
  "countPlaceholders (join '', '' (replicate n ''?'')) = n"
  by (simp add: countPlaceholders_join sum_list_replicate)

lemma compileWhereBasic_count:
  "compileWhereBasic w = (s, a, None) \<Longrightarrow> countPlaceholders s = length a"
  by (auto simp: compileWhereBasic_def countPlaceholders_free
      split: prod.splits option.splits dest!: Wrap_free ValidateOperator_free)

lemma compileWhereIn_count:
  "compileWhereIn w n = (s, a, None) \<Longrightarrow> countPlaceholders s = length a"
  by (auto simp: compileWhereIn_def countPlaceholders_free countPlaceholders_marks Let_def
      split: prod.splits option.splits if_splits dest!: Wrap_free)

lemma compileWhereBetween_count:
  "compileWhereBetween w n = (s, a, None) \<Longrightarrow> countPlaceholders s = length a"
  by (auto simp: compileWhereBetween_def countPlaceholders_free Let_def
      split: prod.splits option.splits if_splits dest!: Wrap_free)

lemma compileWhereNull_count:
  "compileWhereNull w n = (s, a, None) \<Longrightarrow> countPlaceholders s = length a"
  by (auto simp: compileWhereNull_def countPlaceholders_free Let_def
      split: prod.splits option.splits if_splits dest!: Wrap_free)

lemma compileWhereDate_count:
  "compileWhereDate w fn = (s, a, None) \<Longrightarrow> placeholderFree fn \<Longrightarrow> countPlaceholders s = length a"
  by (auto simp: compileWhereDate_def countPlaceholders_free
      split: prod.splits option.splits dest!: Wrap_free)

lemma compileWheresLoop_count:
  "\<forall>w \<in> set ws. \<forall>s a. compileWhere w = (s, a, None) \<longrightarrow> countPlaceholders s = length a \<Longrightarrow>
   countPlaceholders sql = length args \<Longrightarrow>
   compileWheresLoop i ws sql args = (s', a', None) \<Longrightarrow>
   countPlaceholders s' = length a'"
proof (induction ws arbitrary: i sql args)
  case Nil
  then show ?case by simp
next
  case (Cons w ws)
  from Cons.prems(3) obtain cs ca where w: "compileWhere w = (cs, ca, None)"
    by (cases "compileWhere w") (auto simp: Let_def split: option.splits)
  with Cons.prems(1) have c: "countPlaceholders cs = length ca" by simp
  let ?sql1 = "(if i > 0 then sql @ '' '' @ WhereBoolean_String (Boolean w) @ '' '' else sql)"
  have c1: "countPlaceholders (?sql1 @ cs) = length (args @ ca)"
    using c Cons.prems(2) by simp
  from Cons.prems(3) w have "compileWheresLoop (Suc i) ws (?sql1 @ cs) (args @ ca) = (s', a', None)"
    by (simp add: Let_def)
  with Cons.IH [OF _ c1] Cons.prems(1) show ?case by simp
qed

lemma compileWhere_count:
  "rawBalanced w \<Longrightarrow> compileWhere w = (s, a, None) \<Longrightarrow> countPlaceholders s = length a"
proof (induction w arbitrary: s a)
  case (WhereClause t b c op v vs nested raw binds)
  let ?w = "WhereClause t b c op v vs nested raw binds"
  show ?case
  proof (cases "t = WhereTypeNested")
    case True
    show ?thesis
    proof (cases "nested = []")
      case e: True
      with True WhereClause.prems(2) show ?thesis
        by (simp add: compileWhere.simps compileWhereNested.simps)
    next
      case False
      from True WhereClause.prems(1) have bal: "\<forall>x \<in> set nested. rawBalanced x" by simp
      with WhereClause.IH
      have ih: "\<forall>x \<in> set nested. \<forall>s a. compileWhere x = (s, a, None) \<longrightarrow> countPlaceholders s = length a"
        by blast
      from True False WhereClause.prems(2) obtain ns where
        n: "compileWheresLoop 0 nested [] [] = (ns, a, None)" and s: "s = ''('' @ ns @ '')''"
        by (auto simp: compileWhere.simps compileWhereNested.simps compileWheres.simps
            split: prod.splits option.splits)
      from compileWheresLoop_count [OF ih _ n] have "countPlaceholders ns = length a" by simp
      with s show ?thesis by simp
    qed
  next
    case False
    with WhereClause.prems show ?thesis
      by (cases t)
         (auto simp: compileWhere.simps
            dest: compileWhereBasic_count compileWhereIn_count compileWhereBetween_count
              compileWhereNull_count compileWhereDate_count)
  qed
qed

lemma compileWheres_count:
  "\<forall>w \<in> set ws. rawBalanced w \<Longrightarrow> compileWheres ws = (s, a, None) \<Longrightarrow>
   countPlaceholders s = length a"
proof -
  assume b: "\<forall>w \<in> set ws. rawBalanced w" and c: "compileWheres ws = (s, a, None)"
  show ?thesis
  proof (cases "ws = []")
    case True
    with c show ?thesis by (simp add: compileWheres.simps)
  next
    case False
    with c have l: "compileWheresLoop 0 ws [] [] = (s, a, None)" by (simp add: compileWheres.simps)
    from b have "\<forall>w \<in> set ws. \<forall>s a. compileWhere w = (s, a, None) \<longrightarrow> countPlaceholders s = length a"
      by (auto dest: compileWhere_count)
    from compileWheresLoop_count [OF this _ l] show ?thesis by simp
  qed
qed

lemma predicateSection_count:
  "\<forall>w \<in> set ws. rawBalanced w \<Longrightarrow> placeholderFree k \<Longrightarrow> predicateSection k ws = (s, a, None) \<Longrightarrow>
   countPlaceholders s = length a"
  by (auto simp: predicateSection_def countPlaceholders_free
      split: if_splits prod.splits option.splits dest: compileWheres_count)

lemma wrapEach_free: "wrapEach cs = (ws, None) \<Longrightarrow> \<forall>p \<in> set ws. placeholderFree p"
  by (induction cs arbitrary: ws)
     (auto split: prod.splits option.splits dest!: Wrap_free)

lemma selectColumnsLoop_free:
  "\<forall>col \<in> set cs. containsAny col '' ()'' \<longrightarrow> placeholderFree col \<Longrightarrow>
   selectColumnsLoop cs = (ws, None) \<Longrightarrow> \<forall>p \<in> set ws. placeholderFree p"
  by (induction cs arbitrary: ws)
     (auto split: prod.splits option.splits if_splits dest!: Wrap_free)

lemma selectColumns_free:
  assumes "\<forall>col \<in> set cs. containsAny col '' ()'' \<longrightarrow> placeholderFree col"
    and "selectColumns cs = (s, None)"
  shows "placeholderFree s"
proof (cases "length cs = 0")
  case True
  with assms(2) show ?thesis by (auto simp: selectColumns_def)
next
  case False
  with assms(2) obtain ws where w: "selectColumnsLoop cs = (ws, None)" and s: "s = join '', '' ws"
    by (auto simp: selectColumns_def split: prod.splits option.splits)
  from selectColumnsLoop_free [OF assms(1) w] show ?thesis
    unfolding s by (intro placeholderFree_join) auto
qed

lemma compileJoin_free:
  "placeholderFree (jType j) \<Longrightarrow> compileJoin j = (s, None) \<Longrightarrow> placeholderFree s"
  by (auto simp: compileJoin_def split: prod.splits option.splits if_splits
      dest!: Wrap_free WrapTable_free ValidateOperator_free)

lemma joinsLoop_free:
  "\<forall>j \<in> set js. placeholderFree (jType j) \<Longrightarrow> joinsLoop js = (s, None) \<Longrightarrow> placeholderFree s"
  by (induction js arbitrary: s)
     (auto split: prod.splits option.splits dest: compileJoin_free)

lemma ordersLoop_free:
  "\<forall>ord \<in> set ords. placeholderFree (oRaw ord) \<and> placeholderFree (oDirection ord) \<Longrightarrow>
   ordersLoop ords = (ps, None) \<Longrightarrow> \<forall>p \<in> set ps. placeholderFree p"
  by (induction ords arbitrary: ps)
     (auto split: prod.splits option.splits if_splits dest!: Wrap_free)

lemma groupBySection_free:
  assumes "groupBySection gs = (s, None)"
  shows "placeholderFree s"
proof (cases "length gs > 0")
  case False
  with assms show ?thesis by (auto simp: groupBySection_def)
next
  case True
  with assms obtain ws where w: "wrapEach gs = (ws, None)" and s: "s = '' GROUP BY '' @ join '', '' ws"
    by (auto simp: groupBySection_def split: prod.splits option.splits)
  from wrapEach_free [OF w] have "placeholderFree (join '', '' ws)"
    by (intro placeholderFree_join) auto
  then show ?thesis unfolding s by simp
qed

lemma orderBySection_free:
  assumes "\<forall>ord \<in> set ords. placeholderFree (oRaw ord) \<and> placeholderFree (oDirection ord)"
    and "orderBySection ords = (s, None)"
  shows "placeholderFree s"
proof (cases "length ords > 0")
  case False
  with assms(2) show ?thesis by (auto simp: orderBySection_def)
next
  case True
  with assms(2) obtain ps where p: "ordersLoop ords = (ps, None)"
    and s: "s = '' ORDER BY '' @ join '', '' ps"
    by (auto simp: orderBySection_def split: prod.splits option.splits)
  from ordersLoop_free [OF assms(1) p] have "placeholderFree (join '', '' ps)"
    by (intro placeholderFree_join) auto
  then show ?thesis unfolding s by simp
qed

lemma CompileSelect_count:
  assumes v: "verbatimTextsFree b"
    and w: "\<forall>w \<in> set (GetWheres b). rawBalanced w"
    and h: "\<forall>w \<in> set (GetHaving b). rawBalanced w"
    and c: "CompileSelect b = (s, a, None)"
  shows "countPlaceholders s = length a"
proof -
  from c obtain columns tbl joinsSQL whereSQL whereArgs groupSQL havingSQL havingArgs orderSQL
    where p: "selectColumns (GetColumns b) = (columns, None)"
      "WrapTable (GetTable b) = (tbl, None)"
      "joinsLoop (GetJoins b) = (joinsSQL, None)"
      "predicateSection '' WHERE '' (GetWheres b) = (whereSQL, whereArgs, None)"
      "groupBySection (GetGroupBy b) = (groupSQL, None)"
      "predicateSection '' HAVING '' (GetHaving b) = (havingSQL, havingArgs, None)"
      "orderBySection (GetOrders b) = (orderSQL, None)"
    and s: "s = ''SELECT '' @ (if IsDistinct b then ''DISTINCT '' else []) @ columns
             @ '' FROM '' @ tbl @ joinsSQL @ whereSQL @ groupSQL @ havingSQL @ orderSQL
             @ limitSection '' LIMIT '' (GetLimit b) @ limitSection '' OFFSET '' (GetOffset b)"
    and a: "a = whereArgs @ havingArgs"
    by (auto simp: CompileSelect_def split: if_splits prod.splits option.splits)
  from v p(1) have f1: "placeholderFree columns" by (auto simp: verbatimTextsFree_def dest: selectColumns_free)
  from p(2) have f2: "placeholderFree tbl" by (rule WrapTable_free)
  from v p(3) have f3: "placeholderFree joinsSQL" by (auto simp: verbatimTextsFree_def dest: joinsLoop_free)
  from w p(4) have f4: "countPlaceholders whereSQL = length whereArgs"
    by (intro predicateSection_count [of "GetWheres b" "'' WHERE ''"]) simp_all
  from p(5) have f5: "placeholderFree groupSQL" by (rule groupBySection_free)
  from h p(6) have f6: "countPlaceholders havingSQL = length havingArgs"
    by (intro predicateSection_count [of "GetHaving b" "'' HAVING ''"]) simp_all
  from v p(7) have f7: "placeholderFree orderSQL" by (auto simp: verbatimTextsFree_def dest: orderBySection_free)
  have f8: "placeholderFree (limitSection '' LIMIT '' (GetLimit b))"
    "placeholderFree (limitSection '' OFFSET '' (GetOffset b))"
    by (simp_all add: limitSection_free)
  from f1 f2 f3 f4 f5 f6 f7 f8 show ?thesis
    by (simp add: s a countPlaceholders_free)
qed

lemma map_Placeholder: "map Placeholder xs = replicate (length xs) ''?''"
  by (induction xs) (simp_all add: Placeholder_def)

lemma insertColumnsLoop_free:
  "insertColumnsLoop data keys = (cols, args, None) \<Longrightarrow>
   (\<forall>p \<in> set cols. placeholderFree p) \<and> length args = length keys"
  by (induction keys arbitrary: cols args)
     (auto split: prod.splits option.splits dest!: Wrap_free)

lemma CompileInsert_count:
  assumes "CompileInsert b data = (s, a, None)"
  shows "countPlaceholders s = length a"
proof -
  let ?keys = "sort (mapKeys data)"
  from assms obtain tbl cols where
    t: "WrapTable (GetTable b) = (tbl, None)"
    and c: "insertColumnsLoop data ?keys = (cols, a, None)"
    and s: "s = ''INSERT INTO '' @ tbl @ '' ('' @ join '', '' cols @ '')''
              @ '' VALUES ('' @ join '', '' (map Placeholder [0..<length ?keys]) @ '')''"
    by (auto simp: CompileInsert_def Let_def split: if_splits prod.splits option.splits)
  from t have "placeholderFree tbl" by (rule WrapTable_free)
  moreover from insertColumnsLoop_free [OF c] have "placeholderFree (join '', '' cols)"
    and "length a = length ?keys"
    by (auto intro!: placeholderFree_join)
  moreover have "countPlaceholders (join '', '' (map Placeholder [0..<length ?keys])) = length ?keys"
    by (simp add: map_Placeholder countPlaceholders_marks)
  ultimately show ?thesis by (simp add: s countPlaceholders_free)
qed

lemma batchRowLoop_count:
  "batchRowLoop row keys args = (ps, a', None) \<Longrightarrow>
   ps = replicate (length keys) ''?'' \<and> length a' = length args + length keys"
  by (induction keys arbitrary: args ps a')
     (auto simp: Placeholder_def split: prod.splits option.splits)

lemma batchRowsLoop_count:
  "batchRowsLoop keys rows args = (rps, a', None) \<Longrightarrow>
   sum_list (map countPlaceholders rps) + length args = length a'"
proof (induction rows arbitrary: args rps a')
  case Nil
  then show ?case by simp
next
  case (Cons row rows)
  from Cons.prems obtain ps a1 rest where
    r: "batchRowLoop row keys args = (ps, a1, None)"
    and l: "batchRowsLoop keys rows a1 = (rest, a', None)"
    and rps: "rps = (''('' @ join '', '' ps @ '')'') # rest"
    by (auto split: if_splits prod.splits option.splits)
  from batchRowLoop_count [OF r] have "countPlaceholders (join '', '' ps) = length keys"
    and "length a1 = length args + length keys"
    by (simp_all add: countPlaceholders_marks)
  with Cons.IH [OF l] rps show ?case by simp
qed

lemma CompileInsertBatch_count:
  assumes "CompileInsertBatch b rows = (s, a, None)"
  shows "countPlaceholders s = length a"
proof -
  from assms obtain firstRow rest tbl cols rps where
    rows: "rows = firstRow # rest"
    and t: "WrapTable (GetTable b) = (tbl, None)"
    and c: "wrapEach (sort (mapKeys firstRow)) = (cols, None)"
    and l: "batchRowsLoop (sort (mapKeys firstRow)) rows [] = (rps, a, None)"
    and s: "s = ''INSERT INTO '' @ tbl @ '' ('' @ join '', '' cols @ '') VALUES '' @ join '', '' rps"
    by (auto simp: CompileInsertBatch_def Let_def split: if_splits list.splits prod.splits option.splits)
  from t have "placeholderFree tbl" by (rule WrapTable_free)
  moreover from c have "placeholderFree (join '', '' cols)"
    by (auto dest: wrapEach_free intro!: placeholderFree_join)
  moreover from batchRowsLoop_count [OF l] have "sum_list (map countPlaceholders rps) = length a" by simp
  ultimately show ?thesis by (simp add: s countPlaceholders_free countPlaceholders_join)
qed

lemma updateSetLoop_count:
  "updateSetLoop data i keys = (parts, args, None) \<Longrightarrow>
   sum_list (map countPlaceholders parts) = length args"
  by (induction keys arbitrary: i parts args)
     (auto simp: Placeholder_def countPlaceholders_free split: prod.splits option.splits dest!: Wrap_free)

lemma CompileUpdate_count:
  assumes w: "\<forall>w \<in> set (GetWheres b). rawBalanced w" and c: "CompileUpdate b data = (s, a, None)"
  shows "countPlaceholders s = length a"
proof -
  from c obtain tbl parts args whereSQL whereArgs where
    t: "WrapTable (GetTable b) = (tbl, None)"
    and u: "updateSetLoop data 0 (sort (mapKeys data)) = (parts, args, None)"
    and p: "predicateSection '' WHERE '' (GetWheres b) = (whereSQL, whereArgs, None)"
    and s: "s = ''UPDATE '' @ tbl @ '' SET '' @ join '', '' parts @ whereSQL"
    and a: "a = args @ whereArgs"
    by (auto simp: CompileUpdate_def Let_def split: if_splits prod.splits option.splits)
  from t have "placeholderFree tbl" by (rule WrapTable_free)
  moreover from updateSetLoop_count [OF u] have "countPlaceholders (join '', '' parts) = length args"
    by (simp add: countPlaceholders_join)
  moreover from w p have "countPlaceholders whereSQL = length whereArgs"
    by (intro predicateSection_count [of "GetWheres b" "'' WHERE ''"]) simp_all
  ultimately show ?thesis by (simp add: s a countPlaceholders_free)
qed

lemma toUpper_free: "placeholderFree fn \<Longrightarrow> placeholderFree (toUpper fn)"
  by (simp add: placeholderFree_def toUpper_question)


lemma whereSection_count:
  "\<forall>w \<in> set ws. rawBalanced w \<Longrightarrow> predicateSection '' WHERE '' ws = (s, a, None) \<Longrightarrow>
   countPlaceholders s = length a"
  by (rule predicateSection_count [of ws "'' WHERE ''"]) simp_all

lemma CompileDelete_count:
  assumes w: "\<forall>w \<in> set (GetWheres b). rawBalanced w" and c: "CompileDelete b = (s, a, None)"
  shows "countPlaceholders s = length a"
proof -
  from c obtain tbl whereSQL where
    t: "WrapTable (GetTable b) = (tbl, None)"
    and p: "predicateSection '' WHERE '' (GetWheres b) = (whereSQL, a, None)"
    and s: "s = ''DELETE FROM '' @ tbl @ whereSQL"
    by (auto simp: CompileDelete_def split: if_splits prod.splits option.splits)
  from WrapTable_free [OF t] whereSection_count [OF w p] show ?thesis
    by (simp add: s countPlaceholders_free)
qed

lemma CompileExists_count:
  assumes w: "\<forall>w \<in> set (GetWheres b). rawBalanced w" and c: "CompileExists b = (s, a, None)"
  shows "countPlaceholders s = length a"
proof -
  from c obtain tbl whereSQL where
    t: "WrapTable (GetTable b) = (tbl, None)"
    and p: "predicateSection '' WHERE '' (GetWheres b) = (whereSQL, a, None)"
    and s: "s = ''SELECT EXISTS(SELECT 1 FROM '' @ tbl @ whereSQL @ '' LIMIT 1)''"
    by (auto simp: CompileExists_def split: if_splits prod.splits option.splits)
  from WrapTable_free [OF t] whereSection_count [OF w p] show ?thesis
    by (simp add: s countPlaceholders_free)
qed

lemma CompileCount_count:
  assumes w: "\<forall>w \<in> set (GetWheres b). rawBalanced w" and c: "CompileCount b column = (s, a, None)"
  shows "countPlaceholders s = length a"
proof -
  from c obtain countExpr tbl whereSQL where
    e: "countExpr = ''COUNT(*)'' \<or> (\<exists>wrapped. Wrap column = (wrapped, None)
          \<and> countExpr = ''COUNT('' @ wrapped @ '')'')"
    and t: "WrapTable (GetTable b) = (tbl, None)"
    and p: "predicateSection '' WHERE '' (GetWheres b) = (whereSQL, a, None)"
    and s: "s = ''SELECT '' @ countExpr @ '' FROM '' @ tbl @ whereSQL"
    by (auto simp: CompileCount_def split: if_splits prod.splits option.splits)
  from e have "placeholderFree countExpr" by (auto dest!: Wrap_free)
  with WrapTable_free [OF t] whereSection_count [OF w p] show ?thesis
    by (simp add: s countPlaceholders_free)
qed

lemma CompileAggregate_count:
  assumes w: "\<forall>w \<in> set (GetWheres b). rawBalanced w" and f: "placeholderFree fn"
    and c: "CompileAggregate b fn column = (s, a, None)"
  shows "countPlaceholders s = length a"
proof -
  from c obtain wrapped tbl whereSQL where
    e: "Wrap column = (wrapped, None)"
    and t: "WrapTable (GetTable b) = (tbl, None)"
    and p: "predicateSection '' WHERE '' (GetWheres b) = (whereSQL, a, None)"
    and s: "s = ''SELECT '' @ toUpper fn @ ''('' @ wrapped @ '') FROM '' @ tbl @ whereSQL"
    by (auto simp: CompileAggregate_def split: if_splits prod.splits option.splits)
  from Wrap_free [OF e] WrapTable_free [OF t] whereSection_count [OF w p] toUpper_free [OF f]
  show ?thesis by (simp add: s countPlaceholders_free)
qed

lemma upsertPartsLoop_free:
  "upsertPartsLoop cs = (ps, None) \<Longrightarrow> \<forall>p \<in> set ps. placeholderFree p"
  by (induction cs arbitrary: ps)
     (auto split: prod.splits option.splits dest!: Wrap_free)

lemma CompileUpsert_count:
  assumes "CompileUpsert b data cols = (s, a, None)"
  shows "countPlaceholders s = length a"
proof -
  from assms obtain insertSQL cols' ps where
    i: "CompileInsert b data = (insertSQL, a, None)"
    and u: "upsertPartsLoop cols' = (ps, None)"
    and s: "s = insertSQL @ '' ON DUPLICATE KEY UPDATE '' @ join '', '' ps"
    by (auto simp: CompileUpsert_def Let_def split: prod.splits option.splits)
  from u have "placeholderFree (join '', '' ps)"
    by (auto dest: upsertPartsLoop_free intro!: placeholderFree_join)
  with CompileInsert_count [OF i] show ?thesis by (simp add: s countPlaceholders_free)
qed

text \<open>
  C2 (as amended). A compile method that returns a nil error returns a SQL string with as
  many question marks as it returns arguments, provided that each Raw predicate of the
  builder (WHERE or HAVING, at any depth of nesting) has as many bindings as its text has
  question marks, and that the texts emitted as they are (raw column expressions, raw
  ORDER BY expressions, order directions, join types and the function name of
  \<open>CompileAggregate\<close>) hold no question mark. \<open>CompileInsert\<close>, \<open>CompileInsertBatch\<close>
  and \<open>CompileUpsert\<close> need no proviso.
\<close>

theorem placeholders_match_arguments:
  fixes b :: "('v, 'm) QueryBuilder_scheme"
  shows "(verbatimTextsFree b \<and> (\<forall>w \<in> set (GetWheres b). rawBalanced w)
            \<and> (\<forall>w \<in> set (GetHaving b). rawBalanced w) \<and> snd (snd (CompileSelect b)) = None \<longrightarrow>
            countPlaceholders (fst (CompileSelect b)) = length (fst (snd (CompileSelect b))))
       \<and> (snd (snd (CompileInsert b data)) = None \<longrightarrow>
            countPlaceholders (fst (CompileInsert b data)) = length (fst (snd (CompileInsert b data))))
       \<and> (snd (snd (CompileInsertBatch b rows)) = None \<longrightarrow>
            countPlaceholders (fst (CompileInsertBatch b rows))
              = length (fst (snd (CompileInsertBatch b rows))))
       \<and> ((\<forall>w \<in> set (GetWheres b). rawBalanced w) \<and> snd (snd (CompileUpdate b data)) = None \<longrightarrow>
            countPlaceholders (fst (CompileUpdate b data)) = length (fst (snd (CompileUpdate b data))))
       \<and> ((\<forall>w \<in> set (GetWheres b). rawBalanced w) \<and> snd (snd (CompileDelete b)) = None \<longrightarrow>
            countPlaceholders (fst (CompileDelete b)) = length (fst (snd (CompileDelete b))))
       \<and> ((\<forall>w \<in> set (GetWheres b). rawBalanced w) \<and> snd (snd (CompileExists b)) = None \<longrightarrow>
            countPlaceholders (fst (CompileExists b)) = length (fst (snd (CompileExists b))))
       \<and> ((\<forall>w \<in> set (GetWheres b). rawBalanced w) \<and> snd (snd (CompileCount b column)) = None \<longrightarrow>
            countPlaceholders (fst (CompileCount b column))
              = length (fst (snd (CompileCount b column))))
       \<and> ((\<forall>w \<in> set (GetWheres b). rawBalanced w) \<and> placeholderFree fn
            \<and> snd (snd (CompileAggregate b fn column)) = None \<longrightarrow>
            countPlaceholders (fst (CompileAggregate b fn column))
              = length (fst (snd (CompileAggregate b fn column))))
       \<and> (snd (snd (CompileUpsert b data updateColumns)) = None \<longrightarrow>
            countPlaceholders (fst (CompileUpsert b data updateColumns))
              = length (fst (snd (CompileUpsert b data updateColumns))))"
proof (intro conjI impI)
  assume "verbatimTextsFree b \<and> (\<forall>w \<in> set (GetWheres b). rawBalanced w)
            \<and> (\<forall>w \<in> set (GetHaving b). rawBalanced w) \<and> snd (snd (CompileSelect b)) = None"
  then show "countPlaceholders (fst (CompileSelect b)) = length (fst (snd (CompileSelect b)))"
    by (cases "CompileSelect b") (auto dest: CompileSelect_count)
next
  assume "snd (snd (CompileInsert b data)) = None"
  then show "countPlaceholders (fst (CompileInsert b data)) = length (fst (snd (CompileInsert b data)))"
    by (cases "CompileInsert b data") (auto dest: CompileInsert_count)
next
  assume "snd (snd (CompileInsertBatch b rows)) = None"
  then show "countPlaceholders (fst (CompileInsertBatch b rows))
              = length (fst (snd (CompileInsertBatch b rows)))"
    by (cases "CompileInsertBatch b rows") (auto dest: CompileInsertBatch_count)
next
  assume "(\<forall>w \<in> set (GetWheres b). rawBalanced w) \<and> snd (snd (CompileUpdate b data)) = None"
  then show "countPlaceholders (fst (CompileUpdate b data)) = length (fst (snd (CompileUpdate b data)))"
    by (cases "CompileUpdate b data") (auto dest: CompileUpdate_count)
next
  assume "(\<forall>w \<in> set (GetWheres b). rawBalanced w) \<and> snd (snd (CompileDelete b)) = None"
  then show "countPlaceholders (fst (CompileDelete b)) = length (fst (snd (CompileDelete b)))"
    by (cases "CompileDelete b") (auto dest: CompileDelete_count)
next
  assume "(\<forall>w \<in> set (GetWheres b). rawBalanced w) \<and> snd (snd (CompileExists b)) = None"
  then show "countPlaceholders (fst (CompileExists b)) = length (fst (snd (CompileExists b)))"
    by (cases "CompileExists b") (auto dest: CompileExists_count)
next
  assume "(\<forall>w \<in> set (GetWheres b). rawBalanced w) \<and> snd (snd (CompileCount b column)) = None"
  then show "countPlaceholders (fst (CompileCount b column))
              = length (fst (snd (CompileCount b column)))"
    by (cases "CompileCount b column") (auto dest: CompileCount_count)
next
  assume "(\<forall>w \<in> set (GetWheres b). rawBalanced w) \<and> placeholderFree fn
            \<and> snd (snd (CompileAggregate b fn column)) = None"
  then show "countPlaceholders (fst (CompileAggregate b fn column))
              = length (fst (snd (CompileAggregate b fn column)))"
    by (cases "CompileAggregate b fn column") (auto dest: CompileAggregate_count)
next
  assume "snd (snd (CompileUpsert b data updateColumns)) = None"
  then show "countPlaceholders (fst (CompileUpsert b data updateColumns))
              = length (fst (snd (CompileUpsert b data updateColumns)))"
    by (cases "CompileUpsert b data updateColumns") (auto dest: CompileUpsert_count)
qed

theorem placeholders_match_arguments_witness:
  "verbatimTextsFree (rawExampleBuilder [Some (18 :: nat), Some 3] (Some 1))
   \<and> rawBalanced (rawClause WhereBooleanAnd ''age > ? OR level = ?'' [Some (18 :: nat), Some 3])
   \<and> rawBalanced (basicClause WhereBooleanOr ''status'' ''='' (Some (1 :: nat)))
   \<and> snd (snd (CompileSelect (rawExampleBuilder [Some (18 :: nat), Some 3] (Some 1)))) = None
   \<and> countPlaceholders (fst (CompileSelect (rawExampleBuilder [Some (18 :: nat), Some 3] (Some 1)))) = 3
   \<and> length (fst (snd (CompileSelect (rawExampleBuilder [Some (18 :: nat), Some 3] (Some 1))))) = 3"
proof -
  let ?b = "rawExampleBuilder [Some (18 :: nat), Some 3] (Some 1)"
  have h1: "verbatimTextsFree ?b" by code_simp
  have h2: "rawBalanced (rawClause WhereBooleanAnd ''age > ? OR level = ?'' [Some (18 :: nat), Some 3])"
    "rawBalanced (basicClause WhereBooleanOr ''status'' ''='' (Some (1 :: nat)))"
    by code_simp+
  have h3: "\<forall>w \<in> set (GetWheres ?b). rawBalanced w" using h2 by (simp add: rawExampleBuilder_def)
  have h4: "\<forall>w \<in> set (GetHaving ?b). rawBalanced w"
    by (simp add: rawExampleBuilder_def mockBuilder_def)
  have h5: "snd (snd (CompileSelect ?b)) = None" by code_simp
  have l: "length (fst (snd (CompileSelect ?b))) = 3" by code_simp
  have "countPlaceholders (fst (CompileSelect ?b)) = length (fst (snd (CompileSelect ?b)))"
    using placeholders_match_arguments [THEN conjunct1, THEN mp, of ?b] h1 h3 h4 h5 by blast
  with h1 h2 h5 l show ?thesis by simp
qed

text \<open>
  The claim as written fails for the clauses it names: a Raw predicate is emitted with
  its question marks whatever the number of its bindings.
\<close>

theorem raw_placeholder_without_binding:
  "CompileSelect (rawExampleBuilder ([] :: unit any list) None)
     = (''SELECT `id`, COUNT(*) AS n FROM `users` WHERE age > ? OR level = ? OR `status` = ? ORDER BY RAND()'',
        [None], None)
   \<and> countPlaceholders (fst (CompileSelect (rawExampleBuilder ([] :: unit any list) None))) = 3
   \<and> length (fst (snd (CompileSelect (rawExampleBuilder ([] :: unit any list) None)))) = 1"
  by code_simp

subsection \<open>Bound values stay out of the text\<close>

lemma mapResult_simps [simp]: "mapResult f (s, a, e) = (s, map f a, e)"
  by (simp add: mapResult_def)

lemma mapValues_sel [simp]:
  "Type (mapValues f w) = Type w" "Boolean (mapValues f w) = Boolean w"
  "Column (mapValues f w) = Column w" "Operator (mapValues f w) = Operator w"
  "Value (mapValues f w) = f (Value w)" "Values (mapValues f w) = map f (Values w)"
  "Nested (mapValues f w) = map (mapValues f) (Nested w)" "Raw (mapValues f w) = Raw w"
  "Bindings (mapValues f w) = map f (Bindings w)"
  by (cases w; simp)+

lemma compileWhereBasic_map:
  "compileWhereBasic (mapValues f w) = mapResult f (compileWhereBasic w)"
  by (simp add: compileWhereBasic_def split: prod.splits option.splits)

lemma compileWhereIn_map:
  "compileWhereIn (mapValues f w) n = mapResult f (compileWhereIn w n)"
  by (simp add: compileWhereIn_def Let_def split: prod.splits option.splits)

lemma compileWhereBetween_map:
  "compileWhereBetween (mapValues f w) n = mapResult f (compileWhereBetween w n)"
  by (simp add: compileWhereBetween_def Let_def split: prod.splits option.splits)

lemma compileWhereNull_map:
  "compileWhereNull (mapValues f w) n = mapResult f (compileWhereNull w n)"
  by (simp add: compileWhereNull_def Let_def split: prod.splits option.splits)

lemma compileWhereDate_map:
  "compileWhereDate (mapValues f w) fn = mapResult f (compileWhereDate w fn)"
  by (simp add: compileWhereDate_def split: prod.splits option.splits)

lemma compileWheresLoop_map:
  "\<forall>w \<in> set ws. compileWhere (mapValues f w) = mapResult f (compileWhere w) \<Longrightarrow>
   compileWheresLoop i (map (mapValues f) ws) sql (map f args)
     = mapResult f (compileWheresLoop i ws sql args)"
proof (induction ws arbitrary: i sql args)
  case Nil
  show ?case by simp
next
  case (Cons w ws)
  obtain s a e where w: "compileWhere w = (s, a, e)" by (cases "compileWhere w") auto
  with Cons.prems have m: "compileWhere (mapValues f w) = (s, map f a, e)" by simp
  from Cons.prems have r: "\<forall>x \<in> set ws. compileWhere (mapValues f x) = mapResult f (compileWhere x)"
    by simp
  show ?case
  proof (cases e)
    case None
    with w m Cons.IH [OF r, of "Suc i" _ "args @ a"] show ?thesis
      by (simp add: Let_def)
  next
    case (Some err)
    with w m show ?thesis by (simp add: Let_def)
  qed
qed

lemma compileWhere_map:
  "compileWhere (mapValues f w) = mapResult f (compileWhere w)"
proof (induction w)
  case (WhereClause t b c op v vs nested raw binds)
  let ?w = "WhereClause t b c op v vs nested raw binds"
  show ?case
  proof (cases "t = WhereTypeNested")
    case False
    have "compileWhere (mapValues f ?w) = mapResult f (compileWhere ?w)"
      using False
      by (cases t)
         (simp_all add: compileWhere.simps compileWhereBasic_map [symmetric] compileWhereIn_map [symmetric]
            compileWhereBetween_map [symmetric] compileWhereNull_map [symmetric]
            compileWhereDate_map [symmetric] del: mapValues.simps)
    then show ?thesis .
  next
    case True
    from WhereClause.IH
    have ih: "\<forall>x \<in> set nested. compileWhere (mapValues f x) = mapResult f (compileWhere x)"
      by blast
    have l: "compileWheresLoop 0 (map (mapValues f) nested) [] []
        = mapResult f (compileWheresLoop 0 nested [] [])"
      using compileWheresLoop_map [OF ih, of 0 "[]" "[]"] by simp
    show ?thesis
    proof (cases "nested = []")
      case e: True
      with True show ?thesis by (simp add: compileWhere.simps compileWhereNested.simps)
    next
      case False
      obtain s a e where r: "compileWheresLoop 0 nested [] [] = (s, a, e)"
        by (cases "compileWheresLoop 0 nested [] []") auto
      with l True False show ?thesis
        by (cases e) (simp_all add: compileWhere.simps compileWhereNested.simps compileWheres.simps)
    qed
  qed
qed

lemma compileWheres_map:
  "compileWheres (map (mapValues f) ws) = mapResult f (compileWheres ws)"
  using compileWheresLoop_map [of ws f 0 "[]" "[]"]
  by (cases ws) (simp_all add: compileWheres.simps compileWhere_map del: compileWheresLoop.simps)

lemma predicateSection_map:
  "predicateSection k (map (mapValues f) ws) = mapResult f (predicateSection k ws)"
  by (cases "compileWheres ws")
     (auto simp: predicateSection_def compileWheres_map split: option.splits)

lemma CompileSelect_map: "CompileSelect (mapBuilder f b) = mapResult f (CompileSelect b)"
proof -
  obtain ws wa we where w: "predicateSection '' WHERE '' (GetWheres b) = (ws, wa, we)"
    by (cases "predicateSection '' WHERE '' (GetWheres b)") auto
  obtain hs ha he where h: "predicateSection '' HAVING '' (GetHaving b) = (hs, ha, he)"
    by (cases "predicateSection '' HAVING '' (GetHaving b)") auto
  from w h show ?thesis
    by (simp add: CompileSelect_def mapBuilder_def predicateSection_map
        split: prod.splits option.splits)
qed

lemma CompileDelete_map: "CompileDelete (mapBuilder f b) = mapResult f (CompileDelete b)"
proof -
  obtain ws wa we where w: "predicateSection '' WHERE '' (GetWheres b) = (ws, wa, we)"
    by (cases "predicateSection '' WHERE '' (GetWheres b)") auto
  then show ?thesis
    by (simp add: CompileDelete_def mapBuilder_def predicateSection_map
        split: prod.splits option.splits)
qed

lemma CompileExists_map: "CompileExists (mapBuilder f b) = mapResult f (CompileExists b)"
proof -
  obtain ws wa we where w: "predicateSection '' WHERE '' (GetWheres b) = (ws, wa, we)"
    by (cases "predicateSection '' WHERE '' (GetWheres b)") auto
  then show ?thesis
    by (simp add: CompileExists_def mapBuilder_def predicateSection_map
        split: prod.splits option.splits)
qed

lemma CompileCount_map:
  "CompileCount (mapBuilder f b) column = mapResult f (CompileCount b column)"
proof -
  obtain ws wa we where w: "predicateSection '' WHERE '' (GetWheres b) = (ws, wa, we)"
    by (cases "predicateSection '' WHERE '' (GetWheres b)") auto
  then show ?thesis
    by (simp add: CompileCount_def mapBuilder_def predicateSection_map
        split: prod.splits option.splits)
qed

lemma CompileAggregate_map:
  "CompileAggregate (mapBuilder f b) fn column = mapResult f (CompileAggregate b fn column)"
proof -
  obtain ws wa we where w: "predicateSection '' WHERE '' (GetWheres b) = (ws, wa, we)"
    by (cases "predicateSection '' WHERE '' (GetWheres b)") auto
  then show ?thesis
    by (simp add: CompileAggregate_def mapBuilder_def predicateSection_map
        split: prod.splits option.splits)
qed

lemma mapResult_text:
  "mapResult f r = mapResult g r' \<Longrightarrow>
   fst r = fst r' \<and> snd (snd r) = snd (snd r') \<and> length (fst (snd r)) = length (fst (snd r'))"
  by (cases r; cases r') (auto dest: map_eq_imp_length_eq)

lemma same_shape_wheres:
  assumes "map eraseValues ws = map eraseValues ws'"
  shows "fst (compileWheres ws) = fst (compileWheres ws')
       \<and> snd (snd (compileWheres ws)) = snd (snd (compileWheres ws'))
       \<and> length (fst (snd (compileWheres ws))) = length (fst (snd (compileWheres ws')))"
proof -
  have "mapResult (\<lambda>v. None :: unit any) (compileWheres ws)
      = compileWheres (map eraseValues ws)"
    using compileWheres_map [of "\<lambda>v. None :: unit any" ws]
    by (simp add: eraseValues_def [abs_def])
  also have "\<dots> = mapResult (\<lambda>v. None :: unit any) (compileWheres ws')"
    using compileWheres_map [of "\<lambda>v. None :: unit any" ws'] assms
    by (simp add: eraseValues_def [abs_def])
  finally show ?thesis by (rule mapResult_text)
qed

lemma same_shape_builder:
  assumes "eraseBuilder b = eraseBuilder b'"
  shows "mapResult (\<lambda>v. None :: unit any) (CompileSelect b)
           = mapResult (\<lambda>v. None :: unit any) (CompileSelect b')"
    and "mapResult (\<lambda>v. None :: unit any) (CompileDelete b)
           = mapResult (\<lambda>v. None :: unit any) (CompileDelete b')"
    and "mapResult (\<lambda>v. None :: unit any) (CompileExists b)
           = mapResult (\<lambda>v. None :: unit any) (CompileExists b')"
    and "mapResult (\<lambda>v. None :: unit any) (CompileCount b column)
           = mapResult (\<lambda>v. None :: unit any) (CompileCount b' column)"
    and "mapResult (\<lambda>v. None :: unit any) (CompileAggregate b fn column)
           = mapResult (\<lambda>v. None :: unit any) (CompileAggregate b' fn column)"
  using assms
    CompileSelect_map [of "\<lambda>v. None :: unit any" b]
    CompileSelect_map [of "\<lambda>v. None :: unit any" b']
    CompileDelete_map [of "\<lambda>v. None :: unit any" b]
    CompileDelete_map [of "\<lambda>v. None :: unit any" b']
    CompileExists_map [of "\<lambda>v. None :: unit any" b]
    CompileExists_map [of "\<lambda>v. None :: unit any" b']
    CompileCount_map [of "\<lambda>v. None :: unit any" b column]
    CompileCount_map [of "\<lambda>v. None :: unit any" b' column]
    CompileAggregate_map [of "\<lambda>v. None :: unit any" b fn column]
    CompileAggregate_map [of "\<lambda>v. None :: unit any" b' fn column]
  by (simp_all add: eraseBuilder_def)

lemma scalar_clause_args:
  assumes "compiles w"
    and "Type w = WhereTypeBasic \<or> Type w = WhereTypeDate \<or> Type w = WhereTypeYear
         \<or> Type w = WhereTypeMonth \<or> Type w = WhereTypeDay"
  shows "clauseArgs w = [Value w]"
  using assms
  by (auto simp: compiles_def clauseArgs_def compileWhere.simps compileWhereBasic_def
      compileWhereDate_def split: prod.splits option.splits)

lemma list_clause_args:
  assumes "compiles w"
    and "Type w = WhereTypeIn \<or> Type w = WhereTypeNotIn \<or> Type w = WhereTypeBetween
         \<or> Type w = WhereTypeNotBetween"
  shows "clauseArgs w = Values w"
  using assms
  by (auto simp: compiles_def clauseArgs_def compileWhere.simps compileWhereIn_def
      compileWhereBetween_def Let_def split: prod.splits option.splits if_splits)

lemma value_clause_count:
  assumes "compiles w"
    and "Type w \<noteq> WhereTypeRaw" and "Type w \<noteq> WhereTypeNested"
  shows "countPlaceholders (fst (compileWhere w)) = length (clauseArgs w)"
proof -
  from assms(2,3) have "rawBalanced w" by (cases w) (auto split: WhereType.splits)
  moreover from assms(1) obtain s a where "compileWhere w = (s, a, None)"
    by (cases "compileWhere w") (auto simp: compiles_def)
  ultimately show ?thesis by (auto simp: clauseArgs_def dest: compileWhere_count)
qed

text \<open>
  C9 (as amended). The SQL text of a compiled predicate list, and of a compiled SELECT,
  DELETE, EXISTS, COUNT or aggregate statement, does not depend on the bound values:
  replacing every bound value \<open>v\<close> by \<open>f v\<close>, whatever \<open>f\<close> does to \<open>nil\<close> and to the
  other values, leaves the text and the error as they are and replaces each argument, at
  its position, in the same way. So two predicate lists, or two builders, of the same
  shape, which differ only in their bound values, compile to the same text, the same
  error and equally many arguments. A Basic or Date (Year, Month, Day) predicate has one
  question mark and its one value as argument list; an In or Between predicate has one
  question mark for each of its values and these values, in order, as argument list.
\<close>

theorem bound_values_only_in_arguments:
  fixes ws :: "'v WhereClause list" and ws' :: "'u WhereClause list"
    and b :: "'v QueryBuilder" and b' :: "'u QueryBuilder"
    and f :: "'v any \<Rightarrow> 'w any" and w :: "'v WhereClause"
  shows "compileWheres (map (mapValues f) ws) = mapResult f (compileWheres ws)
       \<and> CompileSelect (mapBuilder f b) = mapResult f (CompileSelect b)
       \<and> CompileDelete (mapBuilder f b) = mapResult f (CompileDelete b)
       \<and> CompileExists (mapBuilder f b) = mapResult f (CompileExists b)
       \<and> CompileCount (mapBuilder f b) column = mapResult f (CompileCount b column)
       \<and> CompileAggregate (mapBuilder f b) fn column = mapResult f (CompileAggregate b fn column)
       \<and> (map eraseValues ws = map eraseValues ws' \<longrightarrow>
            fst (compileWheres ws) = fst (compileWheres ws')
            \<and> snd (snd (compileWheres ws)) = snd (snd (compileWheres ws'))
            \<and> length (fst (snd (compileWheres ws))) = length (fst (snd (compileWheres ws'))))
       \<and> (eraseBuilder b = eraseBuilder b' \<longrightarrow>
            (fst (CompileSelect b) = fst (CompileSelect b')
             \<and> snd (snd (CompileSelect b)) = snd (snd (CompileSelect b'))
             \<and> length (fst (snd (CompileSelect b))) = length (fst (snd (CompileSelect b'))))
          \<and> (fst (CompileDelete b) = fst (CompileDelete b')
             \<and> snd (snd (CompileDelete b)) = snd (snd (CompileDelete b'))
             \<and> length (fst (snd (CompileDelete b))) = length (fst (snd (CompileDelete b'))))
          \<and> (fst (CompileExists b) = fst (CompileExists b')
             \<and> snd (snd (CompileExists b)) = snd (snd (CompileExists b'))
             \<and> length (fst (snd (CompileExists b))) = length (fst (snd (CompileExists b'))))
          \<and> (fst (CompileCount b column) = fst (CompileCount b' column)
             \<and> snd (snd (CompileCount b column)) = snd (snd (CompileCount b' column))
             \<and> length (fst (snd (CompileCount b column)))
                 = length (fst (snd (CompileCount b' column))))
          \<and> (fst (CompileAggregate b fn column) = fst (CompileAggregate b' fn column)
             \<and> snd (snd (CompileAggregate b fn column)) = snd (snd (CompileAggregate b' fn column))
             \<and> length (fst (snd (CompileAggregate b fn column)))
                 = length (fst (snd (CompileAggregate b' fn column)))))
       \<and> (compiles w
            \<and> (Type w = WhereTypeBasic \<or> Type w = WhereTypeDate \<or> Type w = WhereTypeYear
                 \<or> Type w = WhereTypeMonth \<or> Type w = WhereTypeDay) \<longrightarrow>
            clauseArgs w = [Value w] \<and> countPlaceholders (fst (compileWhere w)) = 1)
       \<and> (compiles w
            \<and> (Type w = WhereTypeIn \<or> Type w = WhereTypeNotIn \<or> Type w = WhereTypeBetween
                 \<or> Type w = WhereTypeNotBetween) \<longrightarrow>
            clauseArgs w = Values w
            \<and> countPlaceholders (fst (compileWhere w)) = length (Values w))"
proof (intro conjI impI)
  show "compileWheres (map (mapValues f) ws) = mapResult f (compileWheres ws)"
    by (rule compileWheres_map)
  show "CompileSelect (mapBuilder f b) = mapResult f (CompileSelect b)"
    by (rule CompileSelect_map)
  show "CompileDelete (mapBuilder f b) = mapResult f (CompileDelete b)"
    by (rule CompileDelete_map)
  show "CompileExists (mapBuilder f b) = mapResult f (CompileExists b)"
    by (rule CompileExists_map)
  show "CompileCount (mapBuilder f b) column = mapResult f (CompileCount b column)"
    by (rule CompileCount_map)
  show "CompileAggregate (mapBuilder f b) fn column = mapResult f (CompileAggregate b fn column)"
    by (rule CompileAggregate_map)
next
  assume h: "map eraseValues ws = map eraseValues ws'"
  from same_shape_wheres [OF h]
  show "fst (compileWheres ws) = fst (compileWheres ws')"
    and "snd (snd (compileWheres ws)) = snd (snd (compileWheres ws'))"
    and "length (fst (snd (compileWheres ws))) = length (fst (snd (compileWheres ws')))"
    by simp_all
next
  assume h: "eraseBuilder b = eraseBuilder b'"
  from mapResult_text [OF same_shape_builder(1) [OF h]]
  show "fst (CompileSelect b) = fst (CompileSelect b')"
    and "snd (snd (CompileSelect b)) = snd (snd (CompileSelect b'))"
    and "length (fst (snd (CompileSelect b))) = length (fst (snd (CompileSelect b')))"
    by simp_all
  from mapResult_text [OF same_shape_builder(2) [OF h]]
  show "fst (CompileDelete b) = fst (CompileDelete b')"
    and "snd (snd (CompileDelete b)) = snd (snd (CompileDelete b'))"
    and "length (fst (snd (CompileDelete b))) = length (fst (snd (CompileDelete b')))"
    by simp_all
  from mapResult_text [OF same_shape_builder(3) [OF h]]
  show "fst (CompileExists b) = fst (CompileExists b')"
    and "snd (snd (CompileExists b)) = snd (snd (CompileExists b'))"
    and "length (fst (snd (CompileExists b))) = length (fst (snd (CompileExists b')))"
    by simp_all
  from mapResult_text [OF same_shape_builder(4) [OF h, of column]]
  show "fst (CompileCount b column) = fst (CompileCount b' column)"
    and "snd (snd (CompileCount b column)) = snd (snd (CompileCount b' column))"
    and "length (fst (snd (CompileCount b column))) = length (fst (snd (CompileCount b' column)))"
    by simp_all
  from mapResult_text [OF same_shape_builder(5) [OF h, of fn column]]
  show "fst (CompileAggregate b fn column) = fst (CompileAggregate b' fn column)"
    and "snd (snd (CompileAggregate b fn column)) = snd (snd (CompileAggregate b' fn column))"
    and "length (fst (snd (CompileAggregate b fn column)))
           = length (fst (snd (CompileAggregate b' fn column)))"
    by simp_all
next
  assume h: "compiles w
            \<and> (Type w = WhereTypeBasic \<or> Type w = WhereTypeDate \<or> Type w = WhereTypeYear
                 \<or> Type w = WhereTypeMonth \<or> Type w = WhereTypeDay)"
  then show a: "clauseArgs w = [Value w]" by (simp add: scalar_clause_args)
  from h have "countPlaceholders (fst (compileWhere w)) = length (clauseArgs w)"
    by (intro value_clause_count) auto
  with a show "countPlaceholders (fst (compileWhere w)) = 1" by simp
next
  assume h: "compiles w
            \<and> (Type w = WhereTypeIn \<or> Type w = WhereTypeNotIn \<or> Type w = WhereTypeBetween
                 \<or> Type w = WhereTypeNotBetween)"
  then show a: "clauseArgs w = Values w" by (simp add: list_clause_args)
  from h have "countPlaceholders (fst (compileWhere w)) = length (clauseArgs w)"
    by (intro value_clause_count) auto
  with a show "countPlaceholders (fst (compileWhere w)) = length (Values w)" by simp
qed

theorem bound_values_only_in_arguments_witness:
  "compiles (basicClause WhereBooleanAnd ''name'' ''='' (Some ''admin''))
   \<and> Type (basicClause WhereBooleanAnd ''name'' ''='' (Some ''admin'')) = WhereTypeBasic
   \<and> clauseArgs (basicClause WhereBooleanAnd ''name'' ''='' (Some ''admin'')) = [Some ''admin'']
   \<and> countPlaceholders (fst (compileWhere (basicClause WhereBooleanAnd ''name'' ''='' (Some ''admin'')))) = 1
   \<and> compiles (WhereClause WhereTypeIn WhereBooleanAnd ''id'' [] None [Some ''1'', None] [] [] [])
   \<and> clauseArgs (WhereClause WhereTypeIn WhereBooleanAnd ''id'' [] None [Some ''1'', None] [] [] [])
       = [Some ''1'', None]
   \<and> countPlaceholders
       (fst (compileWhere (WhereClause WhereTypeIn WhereBooleanAnd ''id'' [] None [Some ''1'', None] [] [] [])))
       = 2
   \<and> map eraseValues [basicClause WhereBooleanAnd ''name'' ''='' (Some ''admin'')]
       = map eraseValues [basicClause WhereBooleanAnd ''name'' ''='' (None :: nat any)]
   \<and> fst (compileWheres [basicClause WhereBooleanAnd ''name'' ''='' (None :: nat any)]) = ''`name` = ?''
   \<and> fst (compileWheres [basicClause WhereBooleanAnd ''name'' ''='' (Some ''admin'')]) = ''`name` = ?''
   \<and> eraseBuilder ((mockBuilder ''users'')
         \<lparr>GetWheres := [basicClause WhereBooleanAnd ''name'' ''='' (Some ''admin'')]\<rparr>)
       = eraseBuilder ((mockBuilder ''users'')
         \<lparr>GetWheres := [basicClause WhereBooleanAnd ''name'' ''='' (None :: nat any)]\<rparr>)
   \<and> fst (CompileSelect ((mockBuilder ''users'')
         \<lparr>GetWheres := [basicClause WhereBooleanAnd ''name'' ''='' (None :: nat any)]\<rparr>))
       = ''SELECT * FROM `users` WHERE `name` = ?''
   \<and> fst (CompileSelect ((mockBuilder ''users'')
         \<lparr>GetWheres := [basicClause WhereBooleanAnd ''name'' ''='' (Some ''admin'')]\<rparr>))
       = ''SELECT * FROM `users` WHERE `name` = ?''
   \<and> compileWheres (map (mapValues (\<lambda>v. case v of None \<Rightarrow> Some ''x; DROP TABLE users'' | Some y \<Rightarrow> None))
         [basicClause WhereBooleanAnd ''name'' ''='' (Some ''admin''),
          basicClause WhereBooleanOr ''name'' ''='' None])
       = (''`name` = ? OR `name` = ?'', [None, Some ''x; DROP TABLE users''], None)"
proof -
  let ?w = "basicClause WhereBooleanAnd ''name'' ''='' (Some ''admin'')"
  let ?n = "basicClause WhereBooleanAnd ''name'' ''='' (None :: nat any)"
  let ?o = "basicClause WhereBooleanOr ''name'' ''='' (None :: string any)"
  let ?i = "WhereClause WhereTypeIn WhereBooleanAnd ''id'' [] None [Some ''1'', None] [] [] []"
  let ?f = "\<lambda>v :: string any. case v of None \<Rightarrow> Some ''x; DROP TABLE users'' | Some y \<Rightarrow> None"
  let ?bw = "(mockBuilder ''users'') \<lparr>GetWheres := [?w]\<rparr>"
  let ?bn = "(mockBuilder ''users'') \<lparr>GetWheres := [?n]\<rparr>"
  have h1: "compiles ?w" by code_simp
  have h2: "Type ?w = WhereTypeBasic" by (simp add: basicClause_def)
  have h3: "compiles ?i" by code_simp
  have h4: "Type ?i = WhereTypeIn" by simp
  have h5: "map eraseValues [?w] = map eraseValues [?n]"
    by (simp add: eraseValues_def basicClause_def)
  have h6: "eraseBuilder ?bw = eraseBuilder ?bn"
    by (simp add: eraseBuilder_def mapBuilder_def mockBuilder_def basicClause_def)
  have v: "Value ?w = Some ''admin''" "Values ?i = [Some ''1'', None]"
    by (simp_all add: basicClause_def)
  have e1: "fst (compileWheres [?n]) = ''`name` = ?''" by code_simp
  have e2: "fst (CompileSelect ?bn) = ''SELECT * FROM `users` WHERE `name` = ?''" by code_simp
  have e3: "mapResult ?f (compileWheres [?w, ?o])
      = (''`name` = ? OR `name` = ?'', [None, Some ''x; DROP TABLE users''], None)"
    by code_simp
  note t = bound_values_only_in_arguments [where w = ?w and ws = "[?w]" and ws' = "[?n]"
      and f = ?f and b = ?bw and b' = ?bn and column = "[]" and fn = "[]"]
  note u = bound_values_only_in_arguments [where w = ?i and ws = "[?w, ?o]" and ws' = "[?n]"
      and f = ?f and b = ?bw and b' = ?bn and column = "[]" and fn = "[]"]
  from t h1 h2 have c1: "clauseArgs ?w = [Value ?w] \<and> countPlaceholders (fst (compileWhere ?w)) = 1"
    by blast
  from u h3 h4
  have c2: "clauseArgs ?i = Values ?i \<and> countPlaceholders (fst (compileWhere ?i)) = length (Values ?i)"
    by blast
  from t h5 have c3: "fst (compileWheres [?w]) = fst (compileWheres [?n])" by blast
  from t h6 have c4: "fst (CompileSelect ?bw) = fst (CompileSelect ?bn)" by blast
  from u have c5: "compileWheres (map (mapValues ?f) [?w, ?o]) = mapResult ?f (compileWheres [?w, ?o])"
    by blast
  show ?thesis
    using h1 h2 h3 h5 h6 c1 c2 c3 [unfolded e1] c4 [unfolded e2] c5 [unfolded e3] v e1 e2
    by simp
qed

text \<open>
  The claim as written fails as a statement about substrings: a bound value that spells
  a piece of the statement is found in its text.
\<close>

theorem bound_value_spelled_in_sql:
  "compileWhere (basicClause WhereBooleanAnd ''name'' ''='' (Some ''name''))
     = (''`name` = ?'', [Some ''name''], None)
   \<and> sublist ''name'' (fst (compileWhere (basicClause WhereBooleanAnd ''name'' ''='' (Some ''name''))))"
  by code_simp

subsection \<open>Columns of an insert\<close>

lemma mapKeys_set: "set (mapKeys d) = dom (map_of d)"
  by (simp add: mapKeys_def dom_map_of_conv_image_fst)

lemma mapKeys_distinct: "distinct (mapKeys d)"
  by (simp add: mapKeys_def)

lemma sort_mapKeys_cong:
  assumes "map_of d1 = map_of d2"
  shows "sort (mapKeys d1) = sort (mapKeys d2)"
proof (rule sorted_distinct_set_unique)
  show "set (sort (mapKeys d1)) = set (sort (mapKeys d2))" using assms by (simp add: mapKeys_set)
qed (simp_all add: mapKeys_distinct)

lemma mapLen_card: "mapLen d = card (dom (map_of d))"
  by (simp add: mapLen_def mapKeys_set [symmetric] distinct_card mapKeys_distinct)

lemma mapIndex_cong: "map_of d1 = map_of d2 \<Longrightarrow> mapIndex d1 = mapIndex d2"
  by (rule ext) (simp add: mapIndex_def)

lemma insertColumnsLoop_cong:
  "mapIndex d1 = mapIndex d2 \<Longrightarrow> insertColumnsLoop d1 keys = insertColumnsLoop d2 keys"
  by (induction keys) (simp_all split: prod.splits option.splits)

lemma CompileInsert_cong:
  assumes "map_of d1 = map_of d2"
  shows "CompileInsert b d1 = CompileInsert b d2"
  using sort_mapKeys_cong [OF assms] insertColumnsLoop_cong [OF mapIndex_cong [OF assms]] assms
  by (simp add: CompileInsert_def mapLen_card)

lemma insertColumnsLoop_result:
  "insertColumnsLoop d keys = (cols, args, None) \<Longrightarrow>
   cols = map (\<lambda>k. fst (Wrap k)) keys \<and> args = map (mapIndex d) keys"
  by (induction keys arbitrary: cols args) (auto split: prod.splits option.splits)

lemma insertColumnsLoop_succeeds:
  "\<forall>k \<in> set keys. snd (Wrap k) = None \<Longrightarrow>
   insertColumnsLoop d keys = (map (\<lambda>k. fst (Wrap k)) keys, map (mapIndex d) keys, None)"
  by (induction keys) (auto split: prod.splits option.splits)

lemma CompileInsert_result:
  assumes "CompileInsert b d = (sql, args, None)"
  shows "sql = ''INSERT INTO '' @ fst (WrapTable (GetTable b)) @ '' (''
             @ join '', '' (map (\<lambda>k. fst (Wrap k)) (sort (mapKeys d))) @ '') VALUES (''
             @ join '', '' (replicate (length (sort (mapKeys d))) ''?'') @ '')''
         \<and> args = map (mapIndex d) (sort (mapKeys d))"
proof -
  from assms obtain tbl cols where
    t: "WrapTable (GetTable b) = (tbl, None)"
    and c: "insertColumnsLoop d (sort (mapKeys d)) = (cols, args, None)"
    and s: "sql = ''INSERT INTO '' @ tbl @ '' ('' @ join '', '' cols @ '')''
              @ '' VALUES ('' @ join '', '' (map Placeholder [0..<length (sort (mapKeys d))]) @ '')''"
    by (auto simp: CompileInsert_def Let_def split: if_splits prod.splits option.splits)
  from insertColumnsLoop_result [OF c] t s show ?thesis by (simp add: map_Placeholder)
qed

lemma CompileInsert_accepted:
  assumes "GetTable b \<noteq> []" and "d \<noteq> []" and "WrapTable (GetTable b) = (tbl, None)"
    and "\<forall>k \<in> set (mapKeys d). snd (Wrap k) = None"
  shows "CompileInsert b d
     = (''INSERT INTO '' @ tbl @ '' (''
          @ join '', '' (map (\<lambda>k. fst (Wrap k)) (sort (mapKeys d))) @ '') VALUES (''
          @ join '', '' (replicate (length (sort (mapKeys d))) ''?'') @ '')'',
        map (mapIndex d) (sort (mapKeys d)), None)"
proof -
  from assms(2) have "mapKeys d \<noteq> []" by (cases d) (auto simp: mapKeys_def)
  then have l: "mapLen d \<noteq> 0" by (simp add: mapLen_def)
  from assms(4) have "\<forall>k \<in> set (sort (mapKeys d)). snd (Wrap k) = None" by simp
  from insertColumnsLoop_succeeds [OF this, of d]
  have c: "insertColumnsLoop d (sort (mapKeys d))
      = (map (\<lambda>k. fst (Wrap k)) (sort (mapKeys d)), map (mapIndex d) (sort (mapKeys d)), None)" .
  from assms(1,3) l show ?thesis
    by (simp add: CompileInsert_def Let_def c map_Placeholder)
qed


text \<open>
  C3 (as amended). For a builder whose table is not empty and passes validation and a
  non-empty data map whose keys all pass validation, \<open>CompileInsert\<close> succeeds: its text
  is the INSERT statement with the wrapped keys in lexicographically sorted order, each
  key once, and one question mark for each, and its arguments are the values of the keys
  in the same order. When the table or a key does not pass validation it returns an error
  and no text. For every builder and data map its result depends on the key/value pairs
  only, not on the order in which the map yields them. On the table users with name John
  and email j@x.com it returns \<open>INSERT INTO `users` (`email`, `name`) VALUES (?, ?)\<close> with
  the arguments j@x.com, John.
\<close>

theorem insert_sorted_columns:
  fixes b :: "('v, 'm) QueryBuilder_scheme" and data data' :: "'v gomap"
  shows "(GetTable b \<noteq> [] \<and> data \<noteq> [] \<and> WrapTable (GetTable b) = (tbl, None)
            \<and> (\<forall>k \<in> set (mapKeys data). snd (Wrap k) = None) \<longrightarrow>
            CompileInsert b data
              = (''INSERT INTO '' @ tbl @ '' (''
                   @ join '', '' (map (\<lambda>k. fst (Wrap k)) (sort (mapKeys data))) @ '') VALUES (''
                   @ join '', '' (replicate (length (sort (mapKeys data))) ''?'') @ '')'',
                 map (mapIndex data) (sort (mapKeys data)), None)
            \<and> countPlaceholders (fst (CompileInsert b data)) = length (sort (mapKeys data)))
       \<and> sorted (sort (mapKeys data)) \<and> distinct (sort (mapKeys data))
       \<and> set (sort (mapKeys data)) = fst ` set data
       \<and> (snd (WrapTable (GetTable b)) \<noteq> None
            \<or> (\<exists>k \<in> set (mapKeys data). snd (Wrap k) \<noteq> None) \<longrightarrow>
            fst (CompileInsert b data) = [] \<and> snd (snd (CompileInsert b data)) \<noteq> None)
       \<and> (snd (snd (CompileInsert b data)) = None \<longrightarrow>
            fst (CompileInsert b data)
              = ''INSERT INTO '' @ fst (WrapTable (GetTable b)) @ '' (''
                  @ join '', '' (map (\<lambda>k. fst (Wrap k)) (sort (mapKeys data))) @ '') VALUES (''
                  @ join '', '' (replicate (length (sort (mapKeys data))) ''?'') @ '')''
            \<and> fst (snd (CompileInsert b data)) = map (mapIndex data) (sort (mapKeys data)))
       \<and> (map_of data = map_of data' \<longrightarrow> CompileInsert b data = CompileInsert b data')
       \<and> CompileInsert (mockBuilder ''users'')
            [(''name'', Some ''John''), (''email'', Some ''j@x.com'')]
          = (''INSERT INTO `users` (`email`, `name`) VALUES (?, ?)'',
             [Some ''j@x.com'', Some ''John''], None)"
proof (intro conjI impI)
  assume h: "GetTable b \<noteq> [] \<and> data \<noteq> [] \<and> WrapTable (GetTable b) = (tbl, None)
            \<and> (\<forall>k \<in> set (mapKeys data). snd (Wrap k) = None)"
  then show c: "CompileInsert b data
              = (''INSERT INTO '' @ tbl @ '' (''
                   @ join '', '' (map (\<lambda>k. fst (Wrap k)) (sort (mapKeys data))) @ '') VALUES (''
                   @ join '', '' (replicate (length (sort (mapKeys data))) ''?'') @ '')'',
                 map (mapIndex data) (sort (mapKeys data)), None)"
    by (intro CompileInsert_accepted) auto
  from CompileInsert_count [OF c] c
  show "countPlaceholders (fst (CompileInsert b data)) = length (sort (mapKeys data))" by simp
next
  show "sorted (sort (mapKeys data))" by simp
  show "distinct (sort (mapKeys data))" by (simp add: mapKeys_distinct)
  show "set (sort (mapKeys data)) = fst ` set data" by (simp add: mapKeys_def)
next
  assume h: "snd (WrapTable (GetTable b)) \<noteq> None
            \<or> (\<exists>k \<in> set (mapKeys data). snd (Wrap k) \<noteq> None)"
  from CompileInsert_refused [OF h]
  show "fst (CompileInsert b data) = []" and "snd (snd (CompileInsert b data)) \<noteq> None"
    by simp_all
next
  assume h: "snd (snd (CompileInsert b data)) = None"
  then obtain sql args where c: "CompileInsert b data = (sql, args, None)"
    by (cases "CompileInsert b data") auto
  from CompileInsert_result [OF c] c
  show "fst (CompileInsert b data)
              = ''INSERT INTO '' @ fst (WrapTable (GetTable b)) @ '' (''
                  @ join '', '' (map (\<lambda>k. fst (Wrap k)) (sort (mapKeys data))) @ '') VALUES (''
                  @ join '', '' (replicate (length (sort (mapKeys data))) ''?'') @ '')''"
    and "fst (snd (CompileInsert b data)) = map (mapIndex data) (sort (mapKeys data))"
    by simp_all
next
  assume "map_of data = map_of data'"
  then show "CompileInsert b data = CompileInsert b data'" by (rule CompileInsert_cong)
next
  show "CompileInsert (mockBuilder ''users'')
            [(''name'', Some ''John''), (''email'', Some ''j@x.com'')]
          = (''INSERT INTO `users` (`email`, `name`) VALUES (?, ?)'',
             [Some ''j@x.com'', Some ''John''], None)"
    by code_simp
qed

theorem insert_sorted_columns_witness:
  "GetTable (mockBuilder ''users'' :: string QueryBuilder) \<noteq> []
   \<and> WrapTable ''users'' = (''`users`'', None)
   \<and> snd (Wrap ''name'') = None \<and> snd (Wrap ''email'') = None
   \<and> map_of [(''name'', Some ''John''), (''email'', Some ''j@x.com'')]
       = map_of [(''email'', Some ''j@x.com''), (''name'', Some ''John'')]
   \<and> CompileInsert (mockBuilder ''users'') [(''name'', Some ''John''), (''email'', Some ''j@x.com'')]
       = (''INSERT INTO `users` (`email`, `name`) VALUES (?, ?)'',
          [Some ''j@x.com'', Some ''John''], None)
   \<and> CompileInsert (mockBuilder ''users'') [(''email'', Some ''j@x.com''), (''name'', Some ''John'')]
       = (''INSERT INTO `users` (`email`, `name`) VALUES (?, ?)'',
          [Some ''j@x.com'', Some ''John''], None)
   \<and> countPlaceholders (fst (CompileInsert (mockBuilder ''users'')
                 [(''name'', Some ''John''), (''email'', Some ''j@x.com'')])) = 2
   \<and> snd (Wrap ''first name'') \<noteq> None
   \<and> fst (CompileInsert (mockBuilder ''users'') [(''first name'', Some ''John'')]) = []
   \<and> snd (snd (CompileInsert (mockBuilder ''users'') [(''first name'', Some ''John'')])) \<noteq> None"
proof -
  let ?b = "mockBuilder ''users'' :: string QueryBuilder"
  let ?d = "[(''name'', Some ''John''), (''email'', Some ''j@x.com'')]"
  let ?d' = "[(''email'', Some ''j@x.com''), (''name'', Some ''John'')]"
  let ?bad = "[(''first name'', Some ''John'')]"
  have h1: "GetTable ?b \<noteq> []" by (simp add: mockBuilder_def)
  have h2: "WrapTable (GetTable ?b) = (''`users`'', None)" by code_simp
  have h3: "snd (Wrap ''name'') = None" "snd (Wrap ''email'') = None" by code_simp+
  then have h4: "\<forall>k \<in> set (mapKeys ?d). snd (Wrap k) = None" by (simp add: mapKeys_def)
  have h5: "map_of ?d = map_of ?d'" by (rule ext) simp
  have h6: "snd (Wrap ''first name'') \<noteq> None" by code_simp
  then have h7: "\<exists>k \<in> set (mapKeys ?bad). snd (Wrap k) \<noteq> None" by (simp add: mapKeys_def)
  have k: "sort (mapKeys ?d) = [''email'', ''name'']"
    "mapIndex ?d ''email'' = Some ''j@x.com''" "mapIndex ?d ''name'' = Some ''John''"
    "fst (Wrap ''email'') = ''`email`''" "fst (Wrap ''name'') = ''`name`''"
    by code_simp+
  note t = insert_sorted_columns [where b = ?b and data = ?d and data' = ?d'
      and tbl = "''`users`''"]
  note u = insert_sorted_columns [where b = ?b and data = ?bad and data' = ?bad
      and tbl = "''`users`''"]
  from t h1 h2 h4
  have c1: "CompileInsert ?b ?d
      = (''INSERT INTO '' @ ''`users`'' @ '' (''
           @ join '', '' (map (\<lambda>k. fst (Wrap k)) (sort (mapKeys ?d))) @ '') VALUES (''
           @ join '', '' (replicate (length (sort (mapKeys ?d))) ''?'') @ '')'',
         map (mapIndex ?d) (sort (mapKeys ?d)), None)"
    and c2: "countPlaceholders (fst (CompileInsert ?b ?d)) = length (sort (mapKeys ?d))"
    by blast+
  from t h5 have c3: "CompileInsert ?b ?d = CompileInsert ?b ?d'" by blast
  from u h7 have c4: "fst (CompileInsert ?b ?bad) = []"
    and c5: "snd (snd (CompileInsert ?b ?bad)) \<noteq> None"
    by blast+
  have c6: "CompileInsert ?b ?d
      = (''INSERT INTO `users` (`email`, `name`) VALUES (?, ?)'',
         [Some ''j@x.com'', Some ''John''], None)"
    unfolding c1 by (simp add: k)
  from c2 k(1) have c7: "countPlaceholders (fst (CompileInsert ?b ?d)) = 2" by simp
  from h1 h2 h3 h5 h6 c3 c4 c5 c6 c7 show ?thesis
    by (simp add: mockBuilder_def del: map_of.simps)
qed

text \<open>
  The claim as written promises the statement for every non-empty table and data map;
  validation comes first, so a key or a table that is not an identifier gives an error
  and no statement.
\<close>

theorem insert_invalid_key_fails:
  "CompileInsert (mockBuilder ''users'') [(''first name'', Some ''John'')]
     = ([], [], Some IdentifierError)
   \<and> CompileInsert (mockBuilder ''users;DROP'') [(''name'', Some ''John'')]
     = ([], [], Some IdentifierError)"
  by code_simp
subsection \<open>Rows of a batch insert\<close>

lemma batchRowLoop_ok:
  "\<forall>k \<in> set keys. map_of row k \<noteq> None \<Longrightarrow>
   batchRowLoop row keys args
     = (replicate (length keys) ''?'', args @ map (mapIndex row) keys, None)"
proof (induction keys arbitrary: args)
  case Nil
  show ?case by simp
next
  case (Cons k keys)
  then obtain v where v: "map_of row k = Some v" by auto
  from Cons.prems have "\<forall>x \<in> set keys. map_of row x \<noteq> None" by simp
  from Cons.IH [OF this, of "args @ [v]"] v show ?case
    by (simp add: mapIndex_def Placeholder_def)
qed

lemma batchRowLoop_missing:
  "\<exists>k \<in> set keys. map_of row k = None \<Longrightarrow>
   batchRowLoop row keys args = ([], [], Some ErrInconsistentBatch)"
proof (induction keys arbitrary: args)
  case Nil
  then show ?case by simp
next
  case (Cons k keys)
  show ?case
  proof (cases "map_of row k")
    case None
    then show ?thesis by simp
  next
    case (Some v)
    with Cons.prems have "\<exists>x \<in> set keys. map_of row x = None" by auto
    from Cons.IH [OF this, of "args @ [v]"] Some show ?thesis by simp
  qed
qed


lemma batchRowsLoop_ok:
  "\<forall>row \<in> set rows. rowConsistent keys row \<Longrightarrow>
   batchRowsLoop keys rows args
     = (replicate (length rows) (''('' @ join '', '' (replicate (length keys) ''?'') @ '')''),
        args @ concat (map (\<lambda>row. map (mapIndex row) keys) rows), None)"
proof (induction rows arbitrary: args)
  case Nil
  show ?case by simp
next
  case (Cons row rows)
  from Cons.prems have r: "mapLen row = length keys" "\<forall>k \<in> set keys. map_of row k \<noteq> None"
    and rest: "\<forall>x \<in> set rows. rowConsistent keys x"
    by (simp_all add: rowConsistent_def)
  from batchRowLoop_ok [OF r(2), of args] Cons.IH [OF rest, of "args @ map (mapIndex row) keys"] r(1)
  show ?case by simp
qed

lemma batchRowsLoop_inconsistent:
  "\<exists>row \<in> set rows. \<not> rowConsistent keys row \<Longrightarrow>
   batchRowsLoop keys rows args = ([], [], Some ErrInconsistentBatch)"
proof (induction rows arbitrary: args)
  case Nil
  then show ?case by simp
next
  case (Cons row rows)
  show ?case
  proof (cases "rowConsistent keys row")
    case False
    show ?thesis
    proof (cases "mapLen row = length keys")
      case l: False
      then show ?thesis by simp
    next
      case True
      with False have "\<exists>k \<in> set keys. map_of row k = None" by (auto simp: rowConsistent_def)
      from batchRowLoop_missing [OF this, of args] True show ?thesis by simp
    qed
  next
    case True
    then have r: "mapLen row = length keys" "\<forall>k \<in> set keys. map_of row k \<noteq> None"
      by (simp_all add: rowConsistent_def)
    from True Cons.prems have "\<exists>x \<in> set rows. \<not> rowConsistent keys x" by auto
    from Cons.IH [OF this, of "args @ map (mapIndex row) keys"] batchRowLoop_ok [OF r(2), of args] r(1)
    show ?thesis by simp
  qed
qed

lemma first_row_consistent: "rowConsistent (sort (mapKeys first)) first"
  by (auto simp: rowConsistent_def mapLen_def mapKeys_set)

lemma same_keys_consistent:
  assumes "set (mapKeys row) = set (mapKeys first)"
  shows "rowConsistent (sort (mapKeys first)) row"
proof -
  have "mapLen row = card (set (mapKeys row))" by (simp add: mapLen_def distinct_card mapKeys_distinct)
  also have "\<dots> = card (set (mapKeys first))" using assms by simp
  also have "\<dots> = length (sort (mapKeys first))" by (simp add: distinct_card mapKeys_distinct)
  finally have "mapLen row = length (sort (mapKeys first))" .
  moreover have "set (sort (mapKeys first)) = dom (map_of row)"
    using assms mapKeys_set [of row] by simp
  then have "\<forall>k \<in> set (sort (mapKeys first)). map_of row k \<noteq> None" by blast
  ultimately show ?thesis by (simp add: rowConsistent_def)
qed

lemma differing_row_inconsistent:
  assumes "mapLen row \<noteq> mapLen first \<or> (\<exists>k \<in> set (mapKeys first). map_of row k = None)"
  shows "\<not> rowConsistent (sort (mapKeys first)) row"
  using assms by (auto simp: rowConsistent_def mapLen_def)


lemma CompileInsertBatch_unfold:
  assumes "GetTable b \<noteq> []" and "WrapTable (GetTable b) = (tbl, None)" and "mapLen first \<noteq> 0"
    and "wrapEach (sort (mapKeys first)) = (cols, None)"
  shows "CompileInsertBatch b (first # rest)
     = (case batchRowsLoop (sort (mapKeys first)) (first # rest) [] of
          (rowPlaceholders, args, Some e) \<Rightarrow> ([], [], Some e)
        | (rowPlaceholders, args, None) \<Rightarrow>
            (''INSERT INTO '' @ tbl @ '' ('' @ join '', '' cols @ '') VALUES ''
               @ join '', '' rowPlaceholders, args, None))"
  using assms
  by (simp add: CompileInsertBatch_def Let_def split: prod.splits option.splits
      del: batchRowsLoop.simps)

text \<open>
  C4 (as amended). For a builder whose table passes validation and a non-empty row list
  whose first row is non-empty and has keys that all pass validation:
  \<open>CompileInsertBatch\<close> fails with \<open>ErrInconsistentBatch\<close> whenever some later row has a
  number of keys different from the first row's or lacks a key of the first row; when
  every row has exactly the key set of the first row, it succeeds with one parenthesized
  tuple of question marks for each row and, as arguments, the values of the rows one row
  after the other, each row in the sorted order of the keys.
\<close>

theorem batch_uniformity:
  fixes b :: "('v, 'm) QueryBuilder_scheme" and first :: "'v gomap"
  shows "GetTable b \<noteq> [] \<and> WrapTable (GetTable b) = (tbl, None) \<and> mapLen first \<noteq> 0
         \<and> wrapEach (sort (mapKeys first)) = (cols, None) \<longrightarrow>
         ((\<exists>row \<in> set rest. mapLen row \<noteq> mapLen first
              \<or> (\<exists>k \<in> set (mapKeys first). map_of row k = None)) \<longrightarrow>
            CompileInsertBatch b (first # rest) = ([], [], Some ErrInconsistentBatch))
         \<and> ((\<forall>row \<in> set rest. set (mapKeys row) = set (mapKeys first)) \<longrightarrow>
            CompileInsertBatch b (first # rest)
              = (''INSERT INTO '' @ tbl @ '' ('' @ join '', '' cols @ '') VALUES ''
                   @ join '', '' (replicate (length (first # rest))
                        (''('' @ join '', '' (replicate (mapLen first) ''?'') @ '')'')),
                 concat (map (\<lambda>row. map (mapIndex row) (sort (mapKeys first))) (first # rest)),
                 None))"
proof (intro impI conjI)
  assume h: "GetTable b \<noteq> [] \<and> WrapTable (GetTable b) = (tbl, None) \<and> mapLen first \<noteq> 0
         \<and> wrapEach (sort (mapKeys first)) = (cols, None)"
  then have u: "CompileInsertBatch b (first # rest)
     = (case batchRowsLoop (sort (mapKeys first)) (first # rest) [] of
          (rowPlaceholders, args, Some e) \<Rightarrow> ([], [], Some e)
        | (rowPlaceholders, args, None) \<Rightarrow>
            (''INSERT INTO '' @ tbl @ '' ('' @ join '', '' cols @ '') VALUES ''
               @ join '', '' rowPlaceholders, args, None))"
    by (intro CompileInsertBatch_unfold) auto
  {
    assume "\<exists>row \<in> set rest. mapLen row \<noteq> mapLen first
              \<or> (\<exists>k \<in> set (mapKeys first). map_of row k = None)"
    then have "\<exists>row \<in> set (first # rest). \<not> rowConsistent (sort (mapKeys first)) row"
      using differing_row_inconsistent by fastforce
    from batchRowsLoop_inconsistent [OF this, of "[]"] u
    show "CompileInsertBatch b (first # rest) = ([], [], Some ErrInconsistentBatch)" by simp
  }
  {
    assume "\<forall>row \<in> set rest. set (mapKeys row) = set (mapKeys first)"
    then have "\<forall>row \<in> set (first # rest). rowConsistent (sort (mapKeys first)) row"
      using same_keys_consistent first_row_consistent by auto
    from batchRowsLoop_ok [OF this, of "[]"] u
    show "CompileInsertBatch b (first # rest)
              = (''INSERT INTO '' @ tbl @ '' ('' @ join '', '' cols @ '') VALUES ''
                   @ join '', '' (replicate (length (first # rest))
                        (''('' @ join '', '' (replicate (mapLen first) ''?'') @ '')'')),
                 concat (map (\<lambda>row. map (mapIndex row) (sort (mapKeys first))) (first # rest)),
                 None)"
      by (simp add: mapLen_def)
  }
qed

theorem batch_uniformity_witness:
  "GetTable (mockBuilder ''users'' :: nat QueryBuilder) \<noteq> []
   \<and> WrapTable (GetTable (mockBuilder ''users'' :: nat QueryBuilder)) = (''`users`'', None)
   \<and> mapLen [(''b'', Some (1 :: nat)), (''a'', Some 2)] \<noteq> 0
   \<and> wrapEach (sort (mapKeys [(''b'', Some (1 :: nat)), (''a'', Some 2)])) = ([''`a`'', ''`b`''], None)
   \<and> set (mapKeys [(''a'', Some (3 :: nat)), (''b'', Some 4)])
       = set (mapKeys [(''b'', Some (1 :: nat)), (''a'', Some 2)])
   \<and> CompileInsertBatch (mockBuilder ''users'')
         [[(''b'', Some (1 :: nat)), (''a'', Some 2)], [(''a'', Some 3), (''b'', Some 4)]]
       = (''INSERT INTO `users` (`a`, `b`) VALUES (?, ?), (?, ?)'',
          [Some 2, Some 1, Some 3, Some 4], None)
   \<and> (\<exists>k \<in> set (mapKeys [(''b'', Some (1 :: nat)), (''a'', Some 2)]).
          map_of [(''a'', Some (3 :: nat)), (''c'', Some 4)] k = None)
   \<and> CompileInsertBatch (mockBuilder ''users'')
         [[(''b'', Some (1 :: nat)), (''a'', Some 2)], [(''a'', Some 3), (''c'', Some 4)]]
       = ([], [], Some ErrInconsistentBatch)"
proof -
  let ?b = "mockBuilder ''users'' :: nat QueryBuilder"
  let ?first = "[(''b'', Some (1 :: nat)), (''a'', Some 2)]"
  let ?good = "[(''a'', Some (3 :: nat)), (''b'', Some 4)]"
  let ?bad = "[(''a'', Some (3 :: nat)), (''c'', Some 4)]"
  have h1: "GetTable ?b \<noteq> []" by (simp add: mockBuilder_def)
  have h2: "WrapTable (GetTable ?b) = (''`users`'', None)" by code_simp
  have h3: "mapLen ?first \<noteq> 0" by code_simp
  have h4: "wrapEach (sort (mapKeys ?first)) = ([''`a`'', ''`b`''], None)" by code_simp
  have h5: "set (mapKeys ?good) = set (mapKeys ?first)" by code_simp
  have h6: "\<exists>k \<in> set (mapKeys ?first). map_of ?bad k = None" by code_simp
  have e: "(''INSERT INTO '' @ ''`users`'' @ '' ('' @ join '', '' [''`a`'', ''`b`''] @ '') VALUES ''
                   @ join '', '' (replicate (length (?first # [?good]))
                        (''('' @ join '', '' (replicate (mapLen ?first) ''?'') @ '')'')),
                 concat (map (\<lambda>row. map (mapIndex row) (sort (mapKeys ?first))) (?first # [?good])),
                 None :: error option)
      = (''INSERT INTO `users` (`a`, `b`) VALUES (?, ?), (?, ?)'',
          [Some 2, Some 1, Some 3, Some 4], None)"
    by code_simp
  note t1 = batch_uniformity [where b = ?b and first = ?first and rest = "[?good]"
      and tbl = "''`users`''" and cols = "[''`a`'', ''`b`'']"]
  note t2 = batch_uniformity [where b = ?b and first = ?first and rest = "[?bad]"
      and tbl = "''`users`''" and cols = "[''`a`'', ''`b`'']"]
  from t1 h1 h2 h3 h4 h5 have c1: "CompileInsertBatch ?b (?first # [?good])
      = (''INSERT INTO '' @ ''`users`'' @ '' ('' @ join '', '' [''`a`'', ''`b`''] @ '') VALUES ''
                   @ join '', '' (replicate (length (?first # [?good]))
                        (''('' @ join '', '' (replicate (mapLen ?first) ''?'') @ '')'')),
                 concat (map (\<lambda>row. map (mapIndex row) (sort (mapKeys ?first))) (?first # [?good])),
                 None)"
    by simp
  from t2 h1 h2 h3 h4 h6 have c2: "CompileInsertBatch ?b (?first # [?bad])
      = ([], [], Some ErrInconsistentBatch)"
    by simp
  from h1 h2 h3 h4 h5 h6 c1 [unfolded e] c2 show ?thesis by simp
qed

text \<open>
  The claim as written promises these outcomes for every builder and every first row;
  validation comes first, so rows with one and the same key set fail when a key is not
  an identifier, and rows that differ then fail with that error too.
\<close>

theorem batch_invalid_key_fails:
  "CompileInsertBatch (mockBuilder ''users'')
     [[(''first name'', Some ''Ann'')], [(''first name'', Some ''Bob'')]]
     = ([], [], Some IdentifierError)
   \<and> CompileInsertBatch (mockBuilder ''users'') [[(''first name'', Some ''Ann'')], []]
     = ([], [], Some IdentifierError)"
  by code_simp

subsection \<open>The accumulated error of a builder\<close>

text \<open>
  C7. A builder whose accumulated error is not nil returns that error, the empty SQL
  string and no arguments from \<open>ToSelectSQL\<close>, \<open>ToInsertSQL\<close>, \<open>ToUpdateSQL\<close> and
  \<open>ToDeleteSQL\<close>, whatever its grammar is and does: the grammar has no part in the result.
\<close>

theorem accumulated_error_short_circuits:
  fixes b :: "('v, 'x, 's) Builder"
  shows "err b = Some e \<longrightarrow>
           ToSelectSQL (b\<lparr>grammar := g\<rparr>) = ([], [], Some e)
         \<and> ToInsertSQL (b\<lparr>grammar := g\<rparr>) data = ([], [], Some e)
         \<and> ToUpdateSQL (b\<lparr>grammar := g\<rparr>) data = ([], [], Some e)
         \<and> ToDeleteSQL (b\<lparr>grammar := g\<rparr>) = ([], [], Some e)
         \<and> ToSelectSQL b = ([], [], Err b)
         \<and> ToInsertSQL b data = ([], [], Err b)
         \<and> ToUpdateSQL b data = ([], [], Err b)
         \<and> ToDeleteSQL b = ([], [], Err b)"
  by (simp add: ToSelectSQL_def ToInsertSQL_def ToUpdateSQL_def ToDeleteSQL_def Err_def)

theorem accumulated_error_short_circuits_witness:
  "err ((newBuilderOn (None :: unit option) (Some MySQL) (None :: unit option) ''users'')
          \<lparr>err := Some (OtherError 7)\<rparr> :: (unit, unit, unit) Builder) = Some (OtherError 7)
   \<and> ToSelectSQL ((newBuilderOn (None :: unit option) (Some MySQL) (None :: unit option) ''users'')
          \<lparr>err := Some (OtherError 7)\<rparr> :: (unit, unit, unit) Builder) = ([], [], Some (OtherError 7))
   \<and> ToSelectSQL (newBuilderOn (None :: unit option) (Some MySQL) (None :: unit option) ''users''
          :: (unit, unit, unit) Builder) = (''SELECT * FROM `users`'', [], None)"
proof -
  let ?base = "newBuilderOn (None :: unit option) (Some MySQL) (None :: unit option) ''users''
      :: (unit, unit, unit) Builder"
  let ?b = "?base\<lparr>err := Some (OtherError 7)\<rparr>"
  have h: "err ?b = Some (OtherError 7)" by simp
  have g: "?b\<lparr>grammar := Some MySQL\<rparr> = ?b" by (simp add: newBuilderOn_def)
  from accumulated_error_short_circuits [where b = ?b and e = "OtherError 7" and g = "Some MySQL"
      and data = "[]"] h
  have "ToSelectSQL (?b\<lparr>grammar := Some MySQL\<rparr>) = ([], [], Some (OtherError 7))" by blast
  with g have c: "ToSelectSQL ?b = ([], [], Some (OtherError 7))" by simp
  have s0: "CompileSelect (mockBuilder ''users'' :: unit QueryBuilder)
      = (''SELECT * FROM `users`'', [], None)"
    by code_simp
  have q: "asQueryBuilder ?base = mockBuilder ''users''"
    by (simp add: asQueryBuilder_def newBuilderOn_def mockBuilder_def)
  have s: "ToSelectSQL ?base = (''SELECT * FROM `users`'', [], None)"
    using s0 q by (simp add: ToSelectSQL_def) (simp add: newBuilderOn_def MySQL_def)
  from h c s show ?thesis by simp
qed

subsection \<open>What a clone shares\<close>

lemma Clone_fields:
  "Clone st b = (c, st') \<Longrightarrow>
   memTable c = memTable b \<and> memTableAlias c = memTableAlias b \<and> memDistinct c = memDistinct b
   \<and> memLimit c = memLimit b \<and> memOffset c = memOffset b \<and> memErr c = memErr b
   \<and> memExecutor c = memExecutor b \<and> memGrammar c = memGrammar b \<and> memScanner c = memScanner b
   \<and> readStrings st' (memColumns c) = readStrings st (memColumns b)
   \<and> readStrings st' (memGroupBy c) = readStrings st (memGroupBy b)
   \<and> readWheres st' (memWheres c) = readWheres st (memWheres b)
   \<and> readWheres st' (memHaving c) = readWheres st (memHaving b)"
  by (auto simp: Clone_def Let_def readStrings_def readWheres_def copied_def)

lemma Clone_columns_independent:
  assumes "Clone st b = (c, st')" and "ptr (memColumns b) < nextFree st"
    and "setString st' (memColumns b) i v = Some st''"
  shows "readStrings st'' (memColumns c) = readStrings st' (memColumns c)"
  using assms
  by (auto simp: Clone_def Let_def readStrings_def setString_def split: if_splits)

text \<open>
  C8. \<open>Clone\<close> copies the six arrays of the builder, so a write into the column array
  of the original leaves the clone as it was; the predicates it copies still hold the
  original's \<open>Values\<close> slices, so a write through \<open>vals[0] = 99\<close> after the clone was
  taken changes the values of the clone's \<open>WhereIn\<close> predicate from 1, 2 to 99, 2.
\<close>

theorem clone_shares_predicate_values:
  "(case Clone exampleStore exampleBuilderMem of
      (c, st1) \<Rightarrow>
        ptr (memWheres c) \<noteq> ptr (memWheres exampleBuilderMem)
        \<and> map cellValues (readWheres st1 (memWheres c))
            = map cellValues (readWheres st1 (memWheres exampleBuilderMem))
        \<and> wheresValues st1 c = [[Some 1, Some 2]]
        \<and> (case setString st1 (memColumns exampleBuilderMem) 0 ''name'' of
              None \<Rightarrow> False
            | Some st2 \<Rightarrow>
                readStrings st2 (memColumns exampleBuilderMem) = [''name'']
                \<and> readStrings st2 (memColumns c) = [''id''])
        \<and> (case setValue st1 \<lparr>ptr = 1, len = 2\<rparr> 0 (Some 99) of
              None \<Rightarrow> False
            | Some st2 \<Rightarrow>
                wheresValues st2 exampleBuilderMem = [[Some 99, Some 2]]
                \<and> wheresValues st2 c = [[Some 99, Some 2]]))"
  by (simp add: Clone_def exampleStore_def exampleBuilderMem_def Let_def copied_def readWheres_def
      readStrings_def readValues_def wheresValues_def setString_def setValue_def nilSlice_def)

end
